theory Spec2Isabelle
  imports Complex_Main "HOL-Library.Word" "HOL-Library.Log_Nat"
begin

section \<open>Python strings, lists and errors\<close>

text \<open>
  Strings are ASCII byte strings. An exception of the source is a value of \<open>py_error\<close>,
  and a function that can raise returns \<open>py_error + 'a\<close>.
\<close>

datatype py_error = ValueError | IndexError | AttributeError | IsADirectoryError

text \<open>
  \<open>py_split c s\<close> is \<^verbatim>\<open>s.split(c)\<close> for a separator of one character: it cuts at every
  occurrence of \<open>c\<close> and never returns the empty list.
\<close>

fun py_split :: "char \<Rightarrow> string \<Rightarrow> string list" where
  "py_split c [] = [[]]"
| "py_split c (x # xs) =
     (if x = c then [] # py_split c xs
      else (case py_split c xs of
              [] \<Rightarrow> [[x]]
            | w # ws \<Rightarrow> (x # w) # ws))"

text \<open>\<^verbatim>\<open>s.rsplit(c, 1)[0]\<close>: everything before the last \<open>c\<close>, or all of \<open>s\<close> without one.\<close>

definition py_rsplit1_head :: "char \<Rightarrow> string \<Rightarrow> string" where
  "py_rsplit1_head c s =
     (if c \<in> set s then rev (tl (dropWhile (\<lambda>x. x \<noteq> c) (rev s))) else s)"

text \<open>
  \<^verbatim>\<open>s.strip()\<close> removes the ASCII whitespace of Python (tab, line feed, vertical tab,
  form feed, carriage return, the separators 28 to 31 and the space) at both ends;
  \<^verbatim>\<open>s.rstrip('\n')\<close> removes line feeds at the end.
\<close>

definition is_space :: "char \<Rightarrow> bool" where
  "is_space c = (let n = (of_char c :: nat) in (9 \<le> n \<and> n \<le> 13) \<or> (28 \<le> n \<and> n \<le> 32))"

definition py_strip :: "string \<Rightarrow> string" where
  "py_strip s = rev (dropWhile is_space (rev (dropWhile is_space s)))"

definition py_rstrip_newline :: "string \<Rightarrow> string" where
  "py_rstrip_newline s = rev (dropWhile (\<lambda>c. c = CHR 0x0A) (rev s))"

text \<open>\<^verbatim>\<open>str(n)\<close> for a Python integer: decimal digits, with a minus sign below zero.\<close>

definition digit_char :: "nat \<Rightarrow> char" where
  "digit_char d = char_of (48 + d)"

fun digits10 :: "nat \<Rightarrow> string" where
  "digits10 n = (if n < 10 then [digit_char n] else digits10 (n div 10) @ [digit_char (n mod 10)])"

definition str :: "int \<Rightarrow> string" where
  "str n = (if n < 0 then CHR ''-'' # digits10 (nat (- n)) else digits10 (nat n))"

text \<open>
  \<^verbatim>\<open>xs[i]\<close> on a Python list: an index below zero counts from the end, and an index
  outside \<open>-len(xs) .. len(xs) - 1\<close> raises \<^verbatim>\<open>IndexError\<close>.
\<close>

definition py_index :: "'a list \<Rightarrow> int \<Rightarrow> py_error + 'a" where
  "py_index xs i =
     (if 0 \<le> i \<and> i < int (length xs) then Inr (xs ! nat i)
      else if i < 0 \<and> - int (length xs) \<le> i then Inr (xs ! nat (int (length xs) + i))
      else Inl IndexError)"

text \<open>
  A list comprehension whose element expression can raise: the elements are evaluated from
  left to right and the first exception ends the comprehension.
\<close>

fun try_map :: "('a \<Rightarrow> py_error + 'b) \<Rightarrow> 'a list \<Rightarrow> py_error + 'b list" where
  "try_map f [] = Inr []"
| "try_map f (x # xs) =
     (case f x of
        Inl e \<Rightarrow> Inl e
      | Inr y \<Rightarrow> (case try_map f xs of Inl e \<Rightarrow> Inl e | Inr ys \<Rightarrow> Inr (y # ys)))"

text \<open>
  \<^verbatim>\<open>os.path.join(a, b)\<close> on POSIX: an absolute \<open>b\<close> replaces \<open>a\<close>, and a slash is put
  between the two unless \<open>a\<close> is empty or ends with one.
\<close>

definition os_path_join :: "string \<Rightarrow> string \<Rightarrow> string" where
  "os_path_join a b =
     (if b \<noteq> [] \<and> hd b = CHR ''/'' then b
      else if a = [] \<or> last a = CHR ''/'' then a @ b
      else a @ ''/'' @ b)"

definition os_path_basename :: "string \<Rightarrow> string" where
  "os_path_basename p = last (py_split CHR ''/'' p)"

section \<open>Floating-point values\<close>

text \<open>
  A finite binary64 value is a rational number. The result of an arithmetic operation on
  finite values is the exact result rounded by \<open>rnd\<close>, the rounding of the float format,
  which every definition below takes as its first argument. Integers of 32 bits are
  representable, so the integer arithmetic that NumPy uses on \<^verbatim>\<open>int32\<close> arrays is the same
  function. Overflow and the literals \<^verbatim>\<open>inf\<close> and \<^verbatim>\<open>nan\<close> are outside the model: window
  bounds and detection fields are finite, and the only non-finite values are those that a
  division by zero produces.

  \<open>float_rounding rnd\<close> collects what the theorems use of round-to-nearest: it is
  monotone, it leaves 0, 1 and 255 unchanged, and the difference of two distinct
  representable numbers does not round to zero. A number \<open>x\<close> is representable when
  \<open>rnd x = x\<close>. The rounding \<open>binary64\<close> defined below has these properties
  (\<open>float_rounding_binary64\<close>), and so has exact arithmetic.
\<close>

datatype float64 = Finite rat | PosInf | NegInf | NaN

definition float_rounding :: "(rat \<Rightarrow> rat) \<Rightarrow> bool" where
  "float_rounding rnd \<longleftrightarrow>
     (\<forall>x y. x \<le> y \<longrightarrow> rnd x \<le> rnd y) \<and>
     rnd 0 = 0 \<and> rnd 1 = 1 \<and> rnd 255 = 255 \<and>
     (\<forall>x y. rnd x = x \<and> rnd y = y \<and> x < y \<longrightarrow> 0 < rnd (y - x))"

text \<open>
  The rounding of binary64 with an unbounded exponent (no overflow, no underflow): a number
  is scaled by a power of two into \<open>[2^52, 2^53)\<close>, rounded to the nearest integer with
  ties to the even one, and scaled back. \<open>binary_exponent x\<close> is the \<open>e\<close> with
  \<open>2^e \<le> x < 2^(e+1)\<close>, for \<open>x > 0\<close>.
\<close>

definition round_half_even :: "rat \<Rightarrow> int" where
  "round_half_even x =
     (let f = \<lfloor>x\<rfloor>; d = x - of_int f
      in if d < 1 / 2 then f else if 1 / 2 < d then f + 1 else if even f then f else f + 1)"

definition binary_exponent :: "rat \<Rightarrow> int" where
  "binary_exponent x =
     (if 1 \<le> x then int (floorlog 2 (nat \<lfloor>x\<rfloor>)) - 1
      else - int (floorlog 2 (nat (\<lceil>1 / x\<rceil> - 1))))"

definition binary64 :: "rat \<Rightarrow> rat" where
  "binary64 x =
     (if x = 0 then 0
      else (let k = 52 - binary_exponent \<bar>x\<bar>
            in sgn x * of_int (round_half_even (\<bar>x\<bar> * 2 powi k)) / 2 powi k))"

text \<open>
  NumPy's \<^verbatim>\<open>/\<close> on float arrays does not raise on a zero divisor: it warns and yields
  \<^verbatim>\<open>nan\<close> for \<open>0 / 0\<close> and an infinity otherwise.
\<close>

definition true_divide :: "(rat \<Rightarrow> rat) \<Rightarrow> rat \<Rightarrow> rat \<Rightarrow> float64" where
  "true_divide rnd x y =
     (if y = 0 then (if x = 0 then NaN else if 0 < x then PosInf else NegInf)
      else Finite (rnd (x / y)))"

fun multiply :: "(rat \<Rightarrow> rat) \<Rightarrow> float64 \<Rightarrow> rat \<Rightarrow> float64" where
  "multiply rnd (Finite x) k = Finite (rnd (x * k))"
| "multiply rnd PosInf k = (if k = 0 then NaN else if 0 < k then PosInf else NegInf)"
| "multiply rnd NegInf k = (if k = 0 then NaN else if 0 < k then NegInf else PosInf)"
| "multiply rnd NaN k = NaN"

text \<open>Conversion of a float to an integer drops the fraction (rounds towards zero).\<close>

definition trunc :: "rat \<Rightarrow> int" where
  "trunc x = (if 0 \<le> x then \<lfloor>x\<rfloor> else \<lceil>x\<rceil>)"

text \<open>
  \<^verbatim>\<open>.astype("uint8")\<close> on a float: the truncated value where it fits 8 bits. For any other
  value (\<^verbatim>\<open>nan\<close>, an infinity, a value outside \<open>0 .. 255\<close>) the conversion is undefined
  in C and NumPy stores a platform-dependent byte without raising: \<open>None\<close>.
\<close>

fun astype_uint8 :: "float64 \<Rightarrow> 8 word option" where
  "astype_uint8 (Finite x) =
     (if 0 \<le> trunc x \<and> trunc x \<le> 255 then Some (word_of_int (trunc x)) else None)"
| "astype_uint8 PosInf = None"
| "astype_uint8 NegInf = None"
| "astype_uint8 NaN = None"

text \<open>\<^verbatim>\<open>np.clip(a, a_min, a_max)\<close> is \<^verbatim>\<open>minimum(maximum(a, a_min), a_max)\<close> on each element.\<close>

definition np_clip :: "rat \<Rightarrow> rat \<Rightarrow> rat \<Rightarrow> rat" where
  "np_clip a a_min a_max = min (max a a_min) a_max"

section \<open>Windowing normalizer\<close>

text \<open>
  An image is the list of its pixels. \<open>clip_and_normalize\<close> is the source function;
  \<open>clip_max - clip_min\<close> is computed once, on Python floats.
\<close>

definition clip_and_normalize :: "(rat \<Rightarrow> rat) \<Rightarrow> rat list \<Rightarrow> rat \<Rightarrow> rat \<Rightarrow> float64 list" where
  "clip_and_normalize rnd np_image clip_min clip_max =
     (let np_image = map (\<lambda>a. np_clip a clip_min clip_max) np_image;
          np_image = map (\<lambda>a. true_divide rnd (rnd (a - clip_min)) (rnd (clip_max - clip_min))) np_image
      in np_image)"

text \<open>
  \<^verbatim>\<open>image.astype("int32") - 32768\<close> on a 16-bit unsigned pixel, read as a signed number.
\<close>

definition hounsfield :: "16 word \<Rightarrow> int" where
  "hounsfield p = sint ((ucast p :: 32 word) - 32768)"

text \<open>
  The body of the inner \<^verbatim>\<open>try\<close> between \<^verbatim>\<open>imread\<close> and \<^verbatim>\<open>imwrite\<close>: \<open>scale_slice\<close> is
  \<^verbatim>\<open>image * 255\<close> and \<open>convert_slice\<close> the image that is written.
\<close>

definition scale_slice :: "(rat \<Rightarrow> rat) \<Rightarrow> 16 word list \<Rightarrow> rat \<Rightarrow> rat \<Rightarrow> float64 list" where
  "scale_slice rnd raw clip_min clip_max =
     (let image = map (\<lambda>p. of_int (hounsfield p)) raw;
          image = clip_and_normalize rnd image clip_min clip_max
      in map (\<lambda>v. multiply rnd v 255) image)"

definition convert_slice :: "(rat \<Rightarrow> rat) \<Rightarrow> 16 word list \<Rightarrow> rat \<Rightarrow> rat \<Rightarrow> 8 word option list" where
  "convert_slice rnd raw clip_min clip_max = map astype_uint8 (scale_slice rnd raw clip_min clip_max)"

text \<open>
  A cell of the metadata table read by pandas is a string or a value that is not one
  (\<^verbatim>\<open>nan\<close> where the CSV field is empty). A row carries the two columns the loop reads.
\<close>

datatype cell = Text string | NonString

record dl_row =
  File_name :: string
  DICOM_windows :: cell

text \<open>
  The body of the outer \<^verbatim>\<open>try\<close>. \<open>float\<close> stands for Python's \<^verbatim>\<open>float\<close> on strings,
  \<open>None\<close> where it raises \<^verbatim>\<open>ValueError\<close>. A cell that is not a string has no \<^verbatim>\<open>split\<close>
  (\<^verbatim>\<open>AttributeError\<close>); \<^verbatim>\<open>DICOM_windows[1]\<close> raises \<^verbatim>\<open>IndexError\<close> on a list of one.
\<close>

definition parse_DICOM_windows :: "(string \<Rightarrow> rat option) \<Rightarrow> cell \<Rightarrow> py_error + rat \<times> rat" where
  "parse_DICOM_windows float c =
     (case c of
        NonString \<Rightarrow> Inl AttributeError
      | Text s \<Rightarrow>
          (case try_map (\<lambda>v. case float (py_strip v) of None \<Rightarrow> Inl ValueError | Some x \<Rightarrow> Inr x)
                        (py_split CHR '','' s) of
             Inl e \<Rightarrow> Inl e
           | Inr windows \<Rightarrow>
               (case windows of
                  w0 # w1 # _ \<Rightarrow> Inr (w0, w1)
                | _ \<Rightarrow> Inl IndexError)))"

text \<open>
  The \<^verbatim>\<open>try\<close> with its bare \<^verbatim>\<open>except\<close>: the window of the row and what is printed.
\<close>

definition invalid_window_message :: "dl_row \<Rightarrow> string" where
  "invalid_window_message row = ''Invalid DICOM window for '' @ File_name row @ '', using default''"

definition select_window :: "(string \<Rightarrow> rat option) \<Rightarrow> dl_row \<Rightarrow> (rat \<times> rat) \<times> string list" where
  "select_window float row =
     (case parse_DICOM_windows float (DICOM_windows row) of
        Inr w \<Rightarrow> (w, [])
      | Inl _ \<Rightarrow> ((- 150, 250), [invalid_window_message row]))"

text \<open>
  The files the run reads: \<open>glob_png d\<close> is \<^verbatim>\<open>sorted(glob(os.path.join(d, "*.png")))\<close> and
  \<open>imread p\<close> the pixels of \<^verbatim>\<open>cv2.imread(p, cv2.IMREAD_UNCHANGED)\<close>, \<open>None\<close> for a file
  OpenCV cannot decode. The state of the run: the output directories that exist, the
  images written and the lines printed.
\<close>

record environment =
  glob_png :: "string \<Rightarrow> string list"
  imread :: "string \<Rightarrow> 16 word list option"

record run_state =
  directories :: "string set"
  written :: "string \<rightharpoonup> 8 word option list"
  stdout :: "string list"

definition dir_in :: string where
  "dir_in = ''./DeepLesion/deeplesion_images/Images_png''"

definition dir_out :: string where
  "dir_out = ''./DeepLesion/deeplesion_images/Images_png_wn''"

text \<open>
  The inner \<^verbatim>\<open>try\<close>: \<^verbatim>\<open>imread\<close> returns \<^verbatim>\<open>None\<close> for an unreadable file, \<^verbatim>\<open>.astype\<close> on
  it raises, and the handler prints and goes on to the next file.
\<close>

definition astype_on_None :: string where
  "astype_on_None =
     [CHR 0x27] @ ''NoneType'' @ [CHR 0x27] @ '' object has no attribute '' @
     [CHR 0x27] @ ''astype'' @ [CHR 0x27]"

definition convert_image ::
  "environment \<Rightarrow> (rat \<Rightarrow> rat) \<Rightarrow> string \<Rightarrow> rat \<Rightarrow> rat \<Rightarrow> run_state \<Rightarrow> string \<Rightarrow> run_state" where
  "convert_image env rnd subdir_out clip_min clip_max st im =
     (case imread env im of
        None \<Rightarrow>
          st\<lparr>stdout := stdout st @ [''Failed to convert '' @ im @ '': '' @ astype_on_None]\<rparr>
      | Some raw \<Rightarrow>
          (let image = convert_slice rnd raw clip_min clip_max;
               out_path = os_path_join subdir_out (os_path_basename im)
           in st\<lparr>written := (written st)(out_path \<mapsto> image)\<rparr>))"

text \<open>The body of the loop over the rows, and the loop.\<close>

definition process_row ::
  "environment \<Rightarrow> (rat \<Rightarrow> rat) \<Rightarrow> (string \<Rightarrow> rat option) \<Rightarrow> run_state \<Rightarrow> dl_row \<Rightarrow> run_state" where
  "process_row env rnd float st row =
     (let folder = py_rsplit1_head CHR ''_'' (File_name row);
          subdir_in = os_path_join dir_in folder;
          subdir_out = os_path_join dir_out folder;
          st = st\<lparr>directories := insert subdir_out (directories st)\<rparr>;
          ((clip_min, clip_max), printed) = select_window float row;
          st = st\<lparr>stdout := stdout st @ printed\<rparr>;
          images = glob_png env subdir_in
      in foldl (convert_image env rnd subdir_out clip_min clip_max) st images)"

definition process_rows ::
  "environment \<Rightarrow> (rat \<Rightarrow> rat) \<Rightarrow> (string \<Rightarrow> rat option) \<Rightarrow> run_state \<Rightarrow> dl_row list \<Rightarrow> run_state" where
  "process_rows env rnd float st dl_info = foldl (process_row env rnd float) st dl_info"

section \<open>Detection converter\<close>

text \<open>
  \<open>run_num_string\<close> is computed as in the source; the f-string of the last line does not
  mention it. \<^verbatim>\<open>[-1]\<close> and \<^verbatim>\<open>[0]\<close> are applied to results of \<^verbatim>\<open>split\<close>, which are
  never empty.
\<close>

definition get_prediction_filepath :: "string \<Rightarrow> int \<Rightarrow> string" where
  "get_prediction_filepath filepath run_number =
     (let run_num_string = (if run_number \<noteq> 1 then str run_number else '''');
          filename = hd (py_split CHR ''.'' (last (py_split CHR ''/'' filepath)))
      in ''/Users/paularamos/Documents/GitHub/awesome-fiftyone/runs/detect/predict/labels/''
           @ filename @ ''.txt'')"

text \<open>
  What a path names: nothing, a directory, or a text file, given as the lines that
  iterating over the open file yields (each with its line feed, the last perhaps without).
\<close>

datatype fs_entry = RegularFile "string list" | Directory

type_synonym filesystem = "string \<rightharpoonup> fs_entry"

text \<open>
  A two-dimensional float array is the list of its rows; \<^verbatim>\<open>np.array([])\<close>, of size 0, is
  the empty list. \<^verbatim>\<open>np.array\<close> on rows of different lengths raises \<^verbatim>\<open>ValueError\<close>.
\<close>

type_synonym ndarray = "rat list list"

definition np_array :: "rat list list \<Rightarrow> py_error + ndarray" where
  "np_array rows =
     (case rows of
        [] \<Rightarrow> Inr []
      | r # rs \<Rightarrow> if \<forall>r' \<in> set rs. length r' = length r then Inr rows else Inl ValueError)"

definition np_size :: "ndarray \<Rightarrow> nat" where
  "np_size a = sum_list (map length a)"

definition read_yolo_detections_file ::
  "filesystem \<Rightarrow> (string \<Rightarrow> rat option) \<Rightarrow> string \<Rightarrow> py_error + ndarray" where
  "read_yolo_detections_file fs float filepath =
     (case fs filepath of
        None \<Rightarrow> Inr []
      | Some Directory \<Rightarrow> Inl IsADirectoryError
      | Some (RegularFile f) \<Rightarrow>
          (let lines = map (\<lambda>line. py_split CHR '' '' (py_rstrip_newline line)) f
           in case try_map (try_map (\<lambda>l. case float l of None \<Rightarrow> Inl ValueError | Some x \<Rightarrow> Inr x))
                           lines of
                Inl e \<Rightarrow> Inl e
              | Inr detections \<Rightarrow> np_array detections))"

text \<open>
  \<^verbatim>\<open>boxes[:, 0] -= boxes[:, 2]/2.\<close> and \<^verbatim>\<open>boxes[:, 1] -= boxes[:, 3]/2.\<close>: a column index
  outside the array raises \<^verbatim>\<open>IndexError\<close>, for the second statement after the first has
  been executed. The updated array is returned.
\<close>

definition uncenter_boxes :: "(rat \<Rightarrow> rat) \<Rightarrow> ndarray \<Rightarrow> py_error + ndarray" where
  "uncenter_boxes rnd boxes =
     (if \<exists>b \<in> set boxes. length b < 3 then Inl IndexError
      else (let boxes = map (\<lambda>b. b[0 := rnd (b ! 0 - rnd (b ! 2 / 2))]) boxes
            in if \<exists>b \<in> set boxes. length b < 4 then Inl IndexError
               else Inr (map (\<lambda>b. b[1 := rnd (b ! 1 - rnd (b ! 3 / 2))]) boxes)))"

text \<open>
  \<^verbatim>\<open>.astype(int)\<close> truncates each class value; \<^verbatim>\<open>class_list[l]\<close> is Python list indexing.
\<close>

definition get_class_labels :: "rat list \<Rightarrow> string list \<Rightarrow> py_error + string list" where
  "get_class_labels predicted_classes class_list =
     (let labels = map trunc predicted_classes
      in try_map (\<lambda>l. py_index class_list l) labels)"

record detection =
  label :: string
  bounding_box :: "rat list"
  confidence :: rat

text \<open>
  \<^verbatim>\<open>boxes\<close> is a view of columns \<open>1\<close> to \<open>-2\<close> of the array, so \<open>uncenter_boxes\<close> changes
  the array itself: \<open>yolo_detections'\<close> is the array after the call, whose first and last
  columns are read for the labels and the confidences. Past the test of the size the
  array has a row and a column, so column \<open>0\<close> and column \<open>-1\<close> exist.
\<close>

definition convert_yolo_detections_to_fiftyone ::
  "(rat \<Rightarrow> rat) \<Rightarrow> ndarray \<Rightarrow> string list \<Rightarrow> py_error + detection list" where
  "convert_yolo_detections_to_fiftyone rnd yolo_detections class_list =
     (if np_size yolo_detections = 0 then Inr []
      else
        (case uncenter_boxes rnd (map (\<lambda>r. butlast (tl r)) yolo_detections) of
           Inl e \<Rightarrow> Inl e
         | Inr boxes \<Rightarrow>
             (let yolo_detections' = map2 (\<lambda>r b. hd r # b @ [last r]) yolo_detections boxes;
                  confs = map last yolo_detections'
              in case get_class_labels (map hd yolo_detections') class_list of
                   Inl e \<Rightarrow> Inl e
                 | Inr labels \<Rightarrow>
                     Inr (map (\<lambda>(label, conf, box).
                                 \<lparr>label = label, bounding_box = box, confidence = conf\<rparr>)
                              (zip labels (zip confs boxes))))))"

text \<open>
  \<open>add_yolo_detections\<close> reads every file, then converts every array; the list of
  prediction paths is what \<^verbatim>\<open>samples.values\<close> returns, and the result is what is passed
  to \<^verbatim>\<open>samples.set_values\<close>.
\<close>

definition add_yolo_detections ::
  "filesystem \<Rightarrow> (string \<Rightarrow> rat option) \<Rightarrow> (rat \<Rightarrow> rat) \<Rightarrow> string list \<Rightarrow> string list
     \<Rightarrow> py_error + detection list list" where
  "add_yolo_detections fs float rnd prediction_filepaths class_list =
     (case try_map (read_yolo_detections_file fs float) prediction_filepaths of
        Inl e \<Rightarrow> Inl e
      | Inr yolo_detections \<Rightarrow>
          try_map (\<lambda>yd. convert_yolo_detections_to_fiftyone rnd yd class_list) yolo_detections)"

section \<open>A float parser for the examples\<close>

text \<open>
  \<open>float_decimal\<close> is Python's \<^verbatim>\<open>float\<close> on plain decimal literals: surrounding
  whitespace, an optional sign, digits with an optional fraction; every other string is
  rejected. \<open>decimal_value\<close> is the number the literal denotes and \<open>float_decimal\<close> the
  binary64 value nearest to it. The theorems hold for any parser; these two are used to
  evaluate the functions on concrete files and rows.
\<close>

definition is_digit :: "char \<Rightarrow> bool" where
  "is_digit c = (let n = (of_char c :: nat) in 48 \<le> n \<and> n \<le> 57)"

definition digits_value :: "string \<Rightarrow> nat" where
  "digits_value ds = foldl (\<lambda>a c. 10 * a + (of_char c - 48)) 0 ds"

definition unsigned_decimal :: "string \<Rightarrow> rat option" where
  "unsigned_decimal s =
     (let ip = takeWhile is_digit s; rest = dropWhile is_digit s
      in case rest of
           [] \<Rightarrow> if ip = [] then None else Some (of_nat (digits_value ip))
         | c # fp \<Rightarrow>
             if c = CHR ''.'' \<and> list_all is_digit fp \<and> (ip \<noteq> [] \<or> fp \<noteq> [])
             then Some (of_nat (digits_value ip) + of_nat (digits_value fp) / 10 ^ length fp)
             else None)"

definition decimal_value :: "string \<Rightarrow> rat option" where
  "decimal_value s =
     (case py_strip s of
        [] \<Rightarrow> None
      | c # t \<Rightarrow>
          if c = CHR ''-'' then map_option uminus (unsigned_decimal t)
          else if c = CHR ''+'' then unsigned_decimal t
          else unsigned_decimal (c # t))"

definition float_decimal :: "string \<Rightarrow> rat option" where
  "float_decimal s = map_option binary64 (decimal_value s)"

section \<open>Definitions for stating and evaluating the properties\<close>

text \<open>Exact arithmetic: the rounding that changes nothing.\<close>

definition exact :: "rat \<Rightarrow> rat" where
  "exact x = x"

text \<open>
  The 8-bit scaling in the specification's words: \<open>round(normalized * 255)\<close>, cast to
  unsigned 8-bit.
\<close>

definition spec_scale_to_8bit :: "rat \<Rightarrow> 8 word" where
  "spec_scale_to_8bit normalized = word_of_int (round (normalized * 255))"

text \<open>
  The cells on which the body of the outer \<^verbatim>\<open>try\<close> raises: not a string, fewer than two
  comma-separated fields, or a field that \<^verbatim>\<open>float\<close> rejects.
\<close>

definition malformed_window :: "(string \<Rightarrow> rat option) \<Rightarrow> cell \<Rightarrow> bool" where
  "malformed_window float c =
     (case c of
        NonString \<Rightarrow> True
      | Text s \<Rightarrow>
          length (py_split CHR '','' s) < 2 \<or>
          (\<exists>v \<in> set (py_split CHR '','' s). float (py_strip v) = None))"

text \<open>
  The state before the loop, after \<^verbatim>\<open>os.makedirs(dir_out, exist_ok=True)\<close>, and a small
  input tree: every study directory holds the two slices \<^verbatim>\<open>108.png\<close> and \<^verbatim>\<open>109.png\<close>, the
  first of three pixels, the second unreadable.
\<close>

definition initial_state :: run_state where
  "initial_state = \<lparr>directories = {dir_out}, written = Map.empty, stdout = []\<rparr>"

definition example_environment :: environment where
  "example_environment =
     \<lparr>glob_png = (\<lambda>d. [d @ ''/108.png'', d @ ''/109.png'']),
      imread = (\<lambda>p. if os_path_basename p = ''108.png'' then Some [0, 32868, 65535] else None)\<rparr>"

section \<open>Binary floating point satisfies the rounding hypotheses\<close>

lemma round_half_even_lower: "of_int n \<le> x \<Longrightarrow> n \<le> round_half_even x"
proof -
  assume "of_int n \<le> x"
  then have "n \<le> \<lfloor>x\<rfloor>" by (simp add: le_floor_iff)
  moreover have "\<lfloor>x\<rfloor> \<le> round_half_even x"
    by (auto simp: round_half_even_def Let_def)
  ultimately show ?thesis by linarith
qed

lemma round_half_even_upper: "x \<le> of_int n \<Longrightarrow> round_half_even x \<le> n"
proof -
  assume a: "x \<le> of_int n"
  have f: "\<lfloor>x\<rfloor> \<le> n" using a by (simp add: floor_le_iff)
  show ?thesis
  proof (cases "x = of_int n")
    case True
    then show ?thesis by (simp add: round_half_even_def)
  next
    case False
    then have "x < of_int n" using a by simp
    then have "\<lfloor>x\<rfloor> < n" by (simp add: floor_less_iff)
    then show ?thesis by (auto simp: round_half_even_def Let_def)
  qed
qed

lemma round_half_even_mono: "x \<le> y \<Longrightarrow> round_half_even x \<le> round_half_even y"
proof -
  assume a: "x \<le> y"
  have fm: "\<lfloor>x\<rfloor> \<le> \<lfloor>y\<rfloor>" using a by (rule floor_mono)
  show ?thesis
  proof (cases "\<lfloor>x\<rfloor> = \<lfloor>y\<rfloor>")
    case True
    then show ?thesis using a by (auto simp: round_half_even_def Let_def)
  next
    case False
    then have "\<lfloor>x\<rfloor> + 1 \<le> \<lfloor>y\<rfloor>" using fm by simp
    moreover have "round_half_even x \<le> \<lfloor>x\<rfloor> + 1"
      by (auto simp: round_half_even_def Let_def)
    moreover have "\<lfloor>y\<rfloor> \<le> round_half_even y"
      by (auto simp: round_half_even_def Let_def)
    ultimately show ?thesis by linarith
  qed
qed

lemma round_half_even_of_int: "round_half_even (of_int n) = n"
  by (simp add: round_half_even_def)

lemma binary_exponent_bounds:
  assumes "0 < x"
  shows "2 powi binary_exponent x \<le> x" and "x < 2 powi (binary_exponent x + 1)"
proof -
  show "2 powi binary_exponent x \<le> x"
  proof (cases "1 \<le> x")
    case True
    let ?n = "nat \<lfloor>x\<rfloor>"
    have n: "0 < ?n" using True by simp
    have fl: "0 < floorlog 2 ?n" using n by (simp add: floorlog_def)
    have "2 ^ (floorlog 2 ?n - 1) \<le> ?n"
      using floorlog_bounds[of ?n 2] n by simp
    then have "(2::rat) ^ (floorlog 2 ?n - 1) \<le> of_nat ?n"
      by (metis of_nat_le_iff of_nat_numeral of_nat_power)
    also have "\<dots> = of_int \<lfloor>x\<rfloor>" using True by simp
    also have "\<dots> \<le> x" by simp
    finally have "(2::rat) ^ (floorlog 2 ?n - 1) \<le> x" .
    moreover have "binary_exponent x = int (floorlog 2 ?n - 1)"
      using True fl by (simp add: binary_exponent_def)
    ultimately show ?thesis by simp
  next
    case False
    let ?m = "nat (\<lceil>1 / x\<rceil> - 1)"
    have y: "1 < 1 / x" using False assms by simp
    then have c: "2 \<le> \<lceil>1 / x\<rceil>" by (simp add: le_ceiling_iff)
    then have m: "0 < ?m" by simp
    have "?m < 2 ^ floorlog 2 ?m"
      using floorlog_bounds[of ?m 2] m by simp
    then have "Suc ?m \<le> 2 ^ floorlog 2 ?m" by (rule Suc_leI)
    then have "(of_nat (Suc ?m) :: rat) \<le> 2 ^ floorlog 2 ?m"
      by (metis of_nat_le_iff of_nat_numeral of_nat_power)
    moreover have "(of_nat (Suc ?m) :: rat) = of_int \<lceil>1 / x\<rceil>"
    proof -
      have "0 \<le> \<lceil>1 / x\<rceil> - 1" using c by linarith
      from of_nat_nat[OF this, where 'a = rat] show ?thesis by simp
    qed
    ultimately have "1 / x \<le> 2 ^ floorlog 2 ?m"
      using le_of_int_ceiling[of "1 / x"] by linarith
    then have "1 / 2 ^ floorlog 2 ?m \<le> x"
      using assms by (simp add: field_simps)
    moreover have "binary_exponent x = - int (floorlog 2 ?m)"
      using False by (simp add: binary_exponent_def)
    ultimately show ?thesis by (simp add: power_int_minus_divide)
  qed
  show "x < 2 powi (binary_exponent x + 1)"
  proof (cases "1 \<le> x")
    case True
    let ?n = "nat \<lfloor>x\<rfloor>"
    have n: "0 < ?n" using True by simp
    have fl: "0 < floorlog 2 ?n" using n by (simp add: floorlog_def)
    have "?n < 2 ^ floorlog 2 ?n"
      using floorlog_bounds[of ?n 2] n by simp
    then have "Suc ?n \<le> 2 ^ floorlog 2 ?n" by (rule Suc_leI)
    then have "(of_nat (Suc ?n) :: rat) \<le> 2 ^ floorlog 2 ?n"
      by (metis of_nat_le_iff of_nat_numeral of_nat_power)
    moreover have "(of_nat (Suc ?n) :: rat) = of_int \<lfloor>x\<rfloor> + 1" using True by simp
    moreover have "x < of_int \<lfloor>x\<rfloor> + 1" by linarith
    ultimately have "x < 2 ^ floorlog 2 ?n" by linarith
    moreover have "binary_exponent x + 1 = int (floorlog 2 ?n)"
      using True fl by (simp add: binary_exponent_def)
    ultimately show ?thesis by simp
  next
    case False
    let ?m = "nat (\<lceil>1 / x\<rceil> - 1)"
    have y: "1 < 1 / x" using False assms by simp
    then have c: "2 \<le> \<lceil>1 / x\<rceil>" by (simp add: le_ceiling_iff)
    then have m: "0 < ?m" by simp
    have fl: "0 < floorlog 2 ?m" using m by (simp add: floorlog_def)
    have "2 ^ (floorlog 2 ?m - 1) \<le> ?m"
      using floorlog_bounds[of ?m 2] m by simp
    then have "(2::rat) ^ (floorlog 2 ?m - 1) \<le> of_nat ?m"
      by (metis of_nat_le_iff of_nat_numeral of_nat_power)
    moreover have "(of_nat ?m :: rat) = of_int \<lceil>1 / x\<rceil> - 1"
    proof -
      have "0 \<le> \<lceil>1 / x\<rceil> - 1" using c by linarith
      from of_nat_nat[OF this, where 'a = rat] show ?thesis by simp
    qed
    moreover have "of_int \<lceil>1 / x\<rceil> - 1 < 1 / x" by linarith
    ultimately have "(2::rat) ^ (floorlog 2 ?m - 1) < 1 / x" by linarith
    then have "x < 1 / 2 ^ (floorlog 2 ?m - 1)"
      using assms by (simp add: field_simps)
    moreover have "binary_exponent x + 1 = - int (floorlog 2 ?m - 1)"
      using False fl by (simp add: binary_exponent_def)
    ultimately show ?thesis by (simp add: power_int_minus_divide)
  qed
qed

lemma two_powi_less_D: "(2::rat) powi m < 2 powi n \<Longrightarrow> m < n"
proof (rule ccontr)
  assume l: "(2::rat) powi m < 2 powi n" and "\<not> m < n"
  then have "n \<le> m" by simp
  then have "(2::rat) powi n \<le> 2 powi m"
    by (rule power_int_increasing) simp
  then show False using l by simp
qed

lemma binary_exponent_mono:
  assumes "0 < x" "x \<le> y"
  shows "binary_exponent x \<le> binary_exponent y"
proof -
  have "(2::rat) powi binary_exponent x \<le> x"
    using binary_exponent_bounds(1)[OF assms(1)] .
  also have "x \<le> y" by fact
  also have "y < 2 powi (binary_exponent y + 1)"
    using binary_exponent_bounds(2)[of y] assms by simp
  finally have "(2::rat) powi binary_exponent x < 2 powi (binary_exponent y + 1)" .
  then have "binary_exponent x < binary_exponent y + 1"
    by (rule two_powi_less_D)
  then show ?thesis by simp
qed

lemma significand_bounds:
  assumes "0 < x"
  shows "2 ^ 52 \<le> x * 2 powi (52 - binary_exponent x)"
    and "x * 2 powi (52 - binary_exponent x) < 2 ^ 53"
proof -
  let ?e = "binary_exponent x"
  have p: "(0::rat) < 2 powi (52 - ?e)" by simp
  have "(2::rat) powi ?e * 2 powi (52 - ?e) \<le> x * 2 powi (52 - ?e)"
    using binary_exponent_bounds(1)[OF assms] p by (simp add: mult_right_mono)
  moreover have "(2::rat) powi ?e * 2 powi (52 - ?e) = 2 powi 52"
    by (simp flip: power_int_add)
  ultimately show "2 ^ 52 \<le> x * 2 powi (52 - ?e)" by simp
  have "x * 2 powi (52 - ?e) < (2::rat) powi (?e + 1) * 2 powi (52 - ?e)"
    using binary_exponent_bounds(2)[OF assms] p by (simp add: mult_strict_right_mono)
  moreover have "(2::rat) powi (?e + 1) * 2 powi (52 - ?e) = 2 powi 53"
    by (simp flip: power_int_add)
  ultimately show "x * 2 powi (52 - ?e) < 2 ^ 53" by simp
qed

lemma binary64_pos:
  assumes "0 < x"
  shows "binary64 x = of_int (round_half_even (x * 2 powi (52 - binary_exponent x)))
                        / 2 powi (52 - binary_exponent x)"
  using assms by (simp add: binary64_def Let_def)

lemma binary64_minus: "binary64 (- x) = - binary64 x"
  by (simp add: binary64_def Let_def sgn_minus)

lemma binary64_pos_lower:
  assumes "0 < x"
  shows "2 ^ 52 / 2 powi (52 - binary_exponent x) \<le> binary64 x"
proof -
  have "(2::rat) ^ 52 = of_int (2 ^ 52)" by simp
  then have "of_int (2 ^ 52) \<le> x * 2 powi (52 - binary_exponent x)"
    using significand_bounds(1)[OF assms] by simp
  then have "2 ^ 52 \<le> round_half_even (x * 2 powi (52 - binary_exponent x))"
    by (rule round_half_even_lower)
  then have "(2::rat) ^ 52 \<le> of_int (round_half_even (x * 2 powi (52 - binary_exponent x)))"
    by (metis of_int_le_iff of_int_numeral of_int_power)
  then show ?thesis
    using assms by (simp add: binary64_pos divide_right_mono)
qed

lemma binary64_pos_upper:
  assumes "0 < x"
  shows "binary64 x \<le> 2 ^ 53 / 2 powi (52 - binary_exponent x)"
proof -
  have "(2::rat) ^ 53 = of_int (2 ^ 53)" by simp
  then have "x * 2 powi (52 - binary_exponent x) \<le> of_int (2 ^ 53)"
    using significand_bounds(2)[OF assms] by simp
  then have "round_half_even (x * 2 powi (52 - binary_exponent x)) \<le> 2 ^ 53"
    by (rule round_half_even_upper)
  then have "of_int (round_half_even (x * 2 powi (52 - binary_exponent x))) \<le> (2::rat) ^ 53"
    by (metis of_int_le_iff of_int_numeral of_int_power)
  then show ?thesis
    using assms by (simp add: binary64_pos divide_right_mono)
qed

lemma binary64_positive: "0 < x \<Longrightarrow> 0 < binary64 x"
proof -
  assume a: "0 < x"
  have "(0::rat) < 2 ^ 52 / 2 powi (52 - binary_exponent x)" by simp
  then show ?thesis using binary64_pos_lower[OF a] by linarith
qed

lemma binary64_mono_pos:
  assumes "0 < x" "x \<le> y"
  shows "binary64 x \<le> binary64 y"
proof -
  have y: "0 < y" using assms by simp
  let ?kx = "52 - binary_exponent x" and ?ky = "52 - binary_exponent y"
  have k: "?ky \<le> ?kx" using binary_exponent_mono[OF assms] by simp
  show ?thesis
  proof (cases "?kx = ?ky")
    case True
    have "x * 2 powi ?kx \<le> y * 2 powi ?kx"
      using assms(2) by (simp add: mult_right_mono)
    then have "round_half_even (x * 2 powi ?kx) \<le> round_half_even (y * 2 powi ?kx)"
      by (rule round_half_even_mono)
    then have "(of_int (round_half_even (x * 2 powi ?kx)) :: rat) / 2 powi ?kx
                 \<le> of_int (round_half_even (y * 2 powi ?kx)) / 2 powi ?kx"
      by (simp add: divide_right_mono)
    then show ?thesis
      using binary64_pos[OF assms(1)] binary64_pos[OF y] True by simp
  next
    case False
    then have "?ky + 1 \<le> ?kx" using k by simp
    then have "(2::rat) powi (?ky + 1) \<le> 2 powi ?kx"
      by (rule power_int_increasing) simp
    then have "(2::rat) ^ 53 / 2 powi ?kx \<le> 2 ^ 53 / 2 powi (?ky + 1)"
      by (simp add: frac_le)
    also have "\<dots> = 2 ^ 52 / 2 powi ?ky"
    proof -
      have "(2::rat) powi (?ky + 1) = 2 powi ?ky * 2"
        by (rule power_int_add_1) simp
      then show ?thesis by simp
    qed
    finally have "(2::rat) ^ 53 / 2 powi ?kx \<le> 2 ^ 52 / 2 powi ?ky" .
    then show ?thesis
      using binary64_pos_upper[OF assms(1)] binary64_pos_lower[OF y] by linarith
  qed
qed

lemma binary64_zero: "binary64 0 = 0"
  by (simp add: binary64_def)

lemma binary64_mono: "x \<le> y \<Longrightarrow> binary64 x \<le> binary64 y"
proof -
  assume a: "x \<le> y"
  consider "0 < x" | "x = 0" | "x < 0" "0 \<le> y" | "x < 0" "y < 0"
    by linarith
  then show ?thesis
  proof cases
    case 1
    then show ?thesis using a by (rule binary64_mono_pos)
  next
    case 2
    then show ?thesis
      using a binary64_positive[of y] by (cases "y = 0") (auto simp: binary64_zero)
  next
    case 3
    have "binary64 x < 0"
      using binary64_positive[of "- x"] 3(1) by (simp add: binary64_minus)
    moreover have "0 \<le> binary64 y"
      using binary64_positive[of y] 3(2) by (cases "y = 0") (auto simp: binary64_zero)
    ultimately show ?thesis by simp
  next
    case 4
    have "binary64 (- y) \<le> binary64 (- x)"
      by (rule binary64_mono_pos) (use a 4 in simp_all)
    then show ?thesis by (simp add: binary64_minus)
  qed
qed

lemma binary64_of_int:
  assumes "0 < n" "n < 2 ^ 53"
  shows "binary64 (of_int n) = of_int n"
proof -
  let ?x = "of_int n :: rat"
  have x: "0 < ?x" using assms(1) by simp
  have "(2::rat) powi binary_exponent ?x \<le> ?x"
    by (rule binary_exponent_bounds(1)[OF x])
  also have "?x < 2 powi 53"
  proof -
    have "?x < of_int (2 ^ 53)" using assms(2) by (simp only: of_int_less_iff)
    then show ?thesis by simp
  qed
  finally have "binary_exponent ?x < 53" by (rule two_powi_less_D)
  then have k: "0 \<le> 52 - binary_exponent ?x" by simp
  then have "(2::rat) powi (52 - binary_exponent ?x) = of_int (2 ^ nat (52 - binary_exponent ?x))"
    by (simp add: power_int_nonneg_exp)
  then have "?x * 2 powi (52 - binary_exponent ?x) = of_int (n * 2 ^ nat (52 - binary_exponent ?x))"
    by simp
  then have "round_half_even (?x * 2 powi (52 - binary_exponent ?x))
               = n * 2 ^ nat (52 - binary_exponent ?x)"
    by (simp only: round_half_even_of_int)
  then have "binary64 ?x = of_int (n * 2 ^ nat (52 - binary_exponent ?x))
                             / 2 powi (52 - binary_exponent ?x)"
    using binary64_pos[OF x] by simp
  also have "\<dots> = ?x"
    using k by (simp add: power_int_nonneg_exp)
  finally show ?thesis .
qed

lemma float_rounding_binary64: "float_rounding binary64"
proof -
  have "binary64 1 = 1" "binary64 255 = 255"
    using binary64_of_int[of 1] binary64_of_int[of 255] by simp_all
  moreover have "0 < binary64 (y - x)" if "x < y" for x y
    using that by (simp add: binary64_positive)
  ultimately show ?thesis
    unfolding float_rounding_def using binary64_mono binary64_zero by blast
qed

lemma binary64_numeral:
  "(numeral n :: int) < 2 ^ 53 \<Longrightarrow> binary64 (numeral n) = numeral n"
  using binary64_of_int[of "numeral n"] by simp

lemma binary64_neg_numeral:
  "(numeral n :: int) < 2 ^ 53 \<Longrightarrow> binary64 (- numeral n) = - numeral n"
  using binary64_numeral[of n] by (simp add: binary64_minus)

section \<open>Properties of the helpers\<close>

lemma py_split_not_Nil: "py_split c s \<noteq> []"
  by (induction s) (auto split: list.splits)

text \<open>The shift to Hounsfield units does not wrap: 32 bits hold every difference.\<close>

lemma hounsfield_eq: "hounsfield p = uint p - 32768"
proof -
  have lo: "0 \<le> uint p" by (rule uint_nonnegative)
  have hi: "uint p < 65536" using uint_bounded[of p] by simp
  have "(- 2147483648 :: int) \<le> uint p" "uint p < 2147483648"
    using lo hi by linarith+
  then have "signed_take_bit 31 (uint p) = uint p"
    by (intro signed_take_bit_int_eq_self) simp_all
  then have u: "sint (ucast p :: 32 word) = uint p"
    by (simp add: signed_ucast_eq)
  have "(- 2147483648 :: int) \<le> uint p - 32768" "uint p - 32768 < 2147483648"
    using lo hi by linarith+
  then have s: "signed_take_bit 31 (uint p - 32768) = uint p - 32768"
    by (intro signed_take_bit_int_eq_self) simp_all
  have "sint ((ucast p :: 32 word) - 32768) =
          signed_take_bit 31 (sint (ucast p :: 32 word) - sint (32768 :: 32 word))"
    by (simp add: sint_word_ariths)
  also have "\<dots> = uint p - 32768"
    by (simp add: u s)
  finally show ?thesis by (simp add: hounsfield_def)
qed

lemma floor_rat_numeral_divide:
  "\<lfloor>numeral a / numeral b :: rat\<rfloor> = numeral a div numeral b"
  by (metis floor_divide_of_int_eq of_int_numeral)

lemma float_rounding_exact: "float_rounding exact"
  by (simp add: float_rounding_def exact_def)

lemma clip_and_normalize_nth:
  "i < length img \<Longrightarrow>
     clip_and_normalize rnd img a b ! i =
       true_divide rnd (rnd (np_clip (img ! i) a b - a)) (rnd (b - a))"
  by (simp add: clip_and_normalize_def)

lemma scale_slice_nth:
  "i < length raw \<Longrightarrow>
     scale_slice rnd raw a b ! i =
       multiply rnd (true_divide rnd (rnd (np_clip (of_int (hounsfield (raw ! i))) a b - a))
                                     (rnd (b - a))) 255"
  by (simp add: scale_slice_def clip_and_normalize_def)

lemma convert_slice_nth:
  "i < length raw \<Longrightarrow>
     convert_slice rnd raw a b ! i = astype_uint8 (scale_slice rnd raw a b ! i)"
  by (simp add: convert_slice_def scale_slice_def clip_and_normalize_def)

lemma rounding_denominator:
  assumes "float_rounding rnd" "rnd a = a" "rnd b = b" "a < b"
  shows "0 < rnd (b - a)"
  using assms unfolding float_rounding_def by blast

lemma rounding_numerator:
  assumes "float_rounding rnd" "a < b"
  shows "0 \<le> rnd (np_clip x a b - a)" "rnd (np_clip x a b - a) \<le> rnd (b - a)"
proof -
  have mono: "\<And>u v. u \<le> v \<Longrightarrow> rnd u \<le> rnd v" and z: "rnd 0 = 0"
    using assms(1) unfolding float_rounding_def by blast+
  have "0 \<le> np_clip x a b - a" "np_clip x a b - a \<le> b - a"
    using assms(2) by (simp_all add: np_clip_def)
  then show "0 \<le> rnd (np_clip x a b - a)" "rnd (np_clip x a b - a) \<le> rnd (b - a)"
    using mono[of 0 "np_clip x a b - a"] mono[of "np_clip x a b - a" "b - a"] z by simp_all
qed

lemma rounding_quotient:
  assumes "float_rounding rnd" "rnd a = a" "rnd b = b" "a < b"
  shows "0 \<le> rnd (rnd (np_clip x a b - a) / rnd (b - a))"
    and "rnd (rnd (np_clip x a b - a) / rnd (b - a)) \<le> 1"
proof -
  have mono: "\<And>u v. u \<le> v \<Longrightarrow> rnd u \<le> rnd v" and z: "rnd 0 = 0" and o: "rnd 1 = 1"
    using assms(1) unfolding float_rounding_def by blast+
  let ?n = "rnd (np_clip x a b - a)" and ?d = "rnd (b - a)"
  have d: "0 < ?d" by (rule rounding_denominator[OF assms])
  have n: "0 \<le> ?n" "?n \<le> ?d" by (rule rounding_numerator[OF assms(1,4)])+
  have "0 \<le> ?n / ?d" "?n / ?d \<le> 1" using d n by simp_all
  then show "0 \<le> rnd (?n / ?d)" "rnd (?n / ?d) \<le> 1"
    using mono[of 0 "?n / ?d"] mono[of "?n / ?d" 1] z o by simp_all
qed

lemma rounding_scaled:
  assumes "float_rounding rnd" "rnd a = a" "rnd b = b" "a < b"
  shows "0 \<le> rnd (rnd (rnd (np_clip x a b - a) / rnd (b - a)) * 255)"
    and "rnd (rnd (rnd (np_clip x a b - a) / rnd (b - a)) * 255) \<le> 255"
proof -
  have mono: "\<And>u v. u \<le> v \<Longrightarrow> rnd u \<le> rnd v" and z: "rnd 0 = 0" and o: "rnd 255 = 255"
    using assms(1) unfolding float_rounding_def by blast+
  let ?q = "rnd (rnd (np_clip x a b - a) / rnd (b - a))"
  have q: "0 \<le> ?q" "?q \<le> 1" by (rule rounding_quotient[OF assms])+
  have "0 \<le> ?q * 255" "?q * 255 \<le> 255" using q by simp_all
  then show "0 \<le> rnd (?q * 255)" "rnd (?q * 255) \<le> 255"
    using mono[of 0 "?q * 255"] mono[of "?q * 255" 255] z o by simp_all
qed

lemma rounding_scaled_mono:
  assumes "float_rounding rnd" "rnd a = a" "rnd b = b" "a < b" "x \<le> y"
  shows "rnd (rnd (rnd (np_clip x a b - a) / rnd (b - a)) * 255)
           \<le> rnd (rnd (rnd (np_clip y a b - a) / rnd (b - a)) * 255)"
proof -
  have mono: "\<And>u v. u \<le> v \<Longrightarrow> rnd u \<le> rnd v"
    using assms(1) unfolding float_rounding_def by blast
  have d: "0 < rnd (b - a)" by (rule rounding_denominator[OF assms(1-4)])
  have "np_clip x a b - a \<le> np_clip y a b - a"
    using assms(5) by (simp add: np_clip_def min_def max_def)
  then have "rnd (np_clip x a b - a) \<le> rnd (np_clip y a b - a)" by (rule mono)
  then have "rnd (np_clip x a b - a) / rnd (b - a) \<le> rnd (np_clip y a b - a) / rnd (b - a)"
    using d by (simp add: divide_right_mono)
  then have "rnd (rnd (np_clip x a b - a) / rnd (b - a)) \<le> rnd (rnd (np_clip y a b - a) / rnd (b - a))"
    by (rule mono)
  then have "rnd (rnd (np_clip x a b - a) / rnd (b - a)) * 255
               \<le> rnd (rnd (np_clip y a b - a) / rnd (b - a)) * 255"
    by simp
  then show ?thesis by (rule mono)
qed

lemma astype_uint8_in_range:
  assumes "0 \<le> v" "v \<le> 255"
  shows "astype_uint8 (Finite v) = Some (word_of_int \<lfloor>v\<rfloor>)"
    and "uint (word_of_int \<lfloor>v\<rfloor> :: 8 word) = \<lfloor>v\<rfloor>"
proof -
  have f: "0 \<le> \<lfloor>v\<rfloor>" "\<lfloor>v\<rfloor> \<le> 255"
    using assms by (simp_all add: floor_le_iff)
  show "astype_uint8 (Finite v) = Some (word_of_int \<lfloor>v\<rfloor>)"
    using assms f by (simp add: trunc_def)
  show "uint (word_of_int \<lfloor>v\<rfloor> :: 8 word) = \<lfloor>v\<rfloor>"
    using f by (simp add: uint_word_of_int take_bit_int_eq_self)
qed

lemma valid_window_pixel:
  assumes "float_rounding rnd" "rnd a = a" "rnd b = b" "a < b" "i < length raw"
  defines "q \<equiv> rnd (rnd (np_clip (of_int (hounsfield (raw ! i))) a b - a) / rnd (b - a))"
  shows "clip_and_normalize rnd (map (\<lambda>p. of_int (hounsfield p)) raw) a b ! i = Finite q"
    and "scale_slice rnd raw a b ! i = Finite (rnd (q * 255))"
    and "convert_slice rnd raw a b ! i = Some (word_of_int \<lfloor>rnd (q * 255)\<rfloor>)"
    and "uint (word_of_int \<lfloor>rnd (q * 255)\<rfloor> :: 8 word) = \<lfloor>rnd (q * 255)\<rfloor>"
    and "0 \<le> rnd (q * 255)" and "rnd (q * 255) \<le> 255"
proof -
  have d: "rnd (b - a) \<noteq> 0"
    using rounding_denominator[OF assms(1-4)] by simp
  show n: "clip_and_normalize rnd (map (\<lambda>p. of_int (hounsfield p)) raw) a b ! i = Finite q"
    using assms(5) d by (simp add: clip_and_normalize_nth true_divide_def q_def)
  show s: "scale_slice rnd raw a b ! i = Finite (rnd (q * 255))"
    using assms(5) d by (simp add: scale_slice_nth true_divide_def q_def)
  show lo: "0 \<le> rnd (q * 255)" and hi: "rnd (q * 255) \<le> 255"
    unfolding q_def by (rule rounding_scaled[OF assms(1-4)])+
  show "convert_slice rnd raw a b ! i = Some (word_of_int \<lfloor>rnd (q * 255)\<rfloor>)"
    using assms(5) s astype_uint8_in_range(1)[OF lo hi] by (simp add: convert_slice_nth)
  show "uint (word_of_int \<lfloor>rnd (q * 255)\<rfloor> :: 8 word) = \<lfloor>rnd (q * 255)\<rfloor>"
    by (rule astype_uint8_in_range(2)[OF lo hi])
qed

section \<open>Windowing normalizer: valid windows\<close>

text \<open>
  C2: for every window with \<open>clip_min < clip_max\<close> and every raw pixel, the value that is
  cast to 8 bits lies in \<open>[0, 255]\<close>, so does the 8-bit output, which is its integer part,
  and the output does not decrease when the Hounsfield value of the pixel increases.
\<close>

theorem normalized_output_in_range_and_monotone:
  assumes "float_rounding rnd" and "rnd clip_min = clip_min" and "rnd clip_max = clip_max"
    and "clip_min < clip_max" and "i < length raw" and "j < length raw"
  shows "\<exists>v w. scale_slice rnd raw clip_min clip_max ! i = Finite v \<and> 0 \<le> v \<and> v \<le> 255 \<and>
           convert_slice rnd raw clip_min clip_max ! i = Some w \<and> uint w = \<lfloor>v\<rfloor> \<and> unat w \<le> 255 \<and>
           (hounsfield (raw ! i) \<le> hounsfield (raw ! j) \<longrightarrow>
              (\<exists>w'. convert_slice rnd raw clip_min clip_max ! j = Some w' \<and> w \<le> w'))"
proof -
  let ?s = "\<lambda>k. rnd (rnd (rnd (np_clip (of_int (hounsfield (raw ! k))) clip_min clip_max - clip_min)
                            / rnd (clip_max - clip_min)) * 255)"
  note pi = valid_window_pixel[OF assms(1-5)]
  note pj = valid_window_pixel[OF assms(1-4,6)]
  have u: "unat (word_of_int \<lfloor>?s i\<rfloor> :: 8 word) \<le> 255"
    using unsigned_less[of "word_of_int \<lfloor>?s i\<rfloor> :: 8 word", where 'a=nat] by simp
  have m: "(word_of_int \<lfloor>?s i\<rfloor> :: 8 word) \<le> word_of_int \<lfloor>?s j\<rfloor>"
    if "hounsfield (raw ! i) \<le> hounsfield (raw ! j)"
  proof -
    have "(of_int (hounsfield (raw ! i)) :: rat) \<le> of_int (hounsfield (raw ! j))"
      using that by simp
    then have "?s i \<le> ?s j"
      by (rule rounding_scaled_mono[OF assms(1-4)])
    then have "\<lfloor>?s i\<rfloor> \<le> \<lfloor>?s j\<rfloor>" by (rule floor_mono)
    then show ?thesis
      using pi(4) pj(4) by (simp add: word_le_def)
  qed
  show ?thesis
    using pi(2,3,4,5,6) pj(3) u m by blast
qed

theorem normalized_output_in_range_and_monotone_witness:
  "float_rounding binary64 \<and> binary64 (- 150) = - 150 \<and> binary64 250 = 250 \<and> (- 150 :: rat) < 250 \<and>
   0 < length [32768, 32868 :: 16 word] \<and> 1 < length [32768, 32868 :: 16 word] \<and>
   hounsfield ([32768, 32868] ! 0) \<le> hounsfield ([32768, 32868] ! 1) \<and>
   (\<exists>v w w'. scale_slice binary64 [32768, 32868] (- 150) 250 ! 0 = Finite v \<and> 0 \<le> v \<and> v \<le> 255 \<and>
      convert_slice binary64 [32768, 32868] (- 150) 250 ! 0 = Some w \<and> uint w = \<lfloor>v\<rfloor> \<and>
      convert_slice binary64 [32768, 32868] (- 150) 250 ! 1 = Some w' \<and> w \<le> w')"
proof -
  have r: "float_rounding binary64"
    by (rule float_rounding_binary64)
  have a: "binary64 (- 150) = - 150" and b: "binary64 250 = 250"
    by (simp_all add: binary64_zero binary64_numeral binary64_neg_numeral)
  have h: "hounsfield ([32768, 32868] ! 0) \<le> hounsfield ([32768, 32868] ! 1)"
    by (simp add: hounsfield_def)
  show ?thesis
    using normalized_output_in_range_and_monotone
            [of binary64 "- 150" 250 0 "[32768, 32868]" 1, OF r a b] r a b h
    by auto
qed

text \<open>
  C3: for every window with \<open>clip_min < clip_max\<close>, a pixel whose Hounsfield value (after
  the shift by 32768) equals \<open>clip_min\<close> is written as 0 and one whose value equals
  \<open>clip_max\<close> is written as 255.
\<close>

theorem window_bounds_map_to_0_and_255:
  assumes "float_rounding rnd" and "rnd clip_min = clip_min" and "rnd clip_max = clip_max"
    and "clip_min < clip_max" and "i < length raw"
  shows "(of_int (hounsfield (raw ! i)) = clip_min \<longrightarrow>
            convert_slice rnd raw clip_min clip_max ! i = Some 0) \<and>
         (of_int (hounsfield (raw ! i)) = clip_max \<longrightarrow>
            convert_slice rnd raw clip_min clip_max ! i = Some 255)"
proof -
  have z: "rnd 0 = 0" and o: "rnd 1 = 1" and f: "rnd 255 = 255"
    using assms(1) unfolding float_rounding_def by blast+
  have d: "rnd (clip_max - clip_min) \<noteq> 0"
    using rounding_denominator[OF assms(1-4)] by simp
  note p = valid_window_pixel(3)[OF assms]
  have lo: "convert_slice rnd raw clip_min clip_max ! i = Some 0"
    if "of_int (hounsfield (raw ! i)) = clip_min"
  proof -
    have "np_clip (of_int (hounsfield (raw ! i))) clip_min clip_max = clip_min"
      using that assms(4) by (simp add: np_clip_def)
    then show ?thesis using p z by simp
  qed
  have hi: "convert_slice rnd raw clip_min clip_max ! i = Some 255"
    if "of_int (hounsfield (raw ! i)) = clip_max"
  proof -
    have "np_clip (of_int (hounsfield (raw ! i))) clip_min clip_max = clip_max"
      using that assms(4) by (simp add: np_clip_def)
    then show ?thesis using p d o f by simp
  qed
  show ?thesis using lo hi by blast
qed

theorem window_bounds_map_to_0_and_255_witness:
  "float_rounding binary64 \<and> binary64 (- 150) = - 150 \<and> binary64 250 = 250 \<and> (- 150 :: rat) < 250 \<and>
   0 < length [32618, 33018 :: 16 word] \<and> 1 < length [32618, 33018 :: 16 word] \<and>
   of_int (hounsfield ([32618, 33018] ! 0)) = (- 150 :: rat) \<and>
   of_int (hounsfield ([32618, 33018] ! 1)) = (250 :: rat) \<and>
   convert_slice binary64 [32618, 33018] (- 150) 250 ! 0 = Some 0 \<and>
   convert_slice binary64 [32618, 33018] (- 150) 250 ! 1 = Some 255"
proof -
  have r: "float_rounding binary64"
    by (rule float_rounding_binary64)
  have a: "binary64 (- 150) = - 150" and b: "binary64 250 = 250"
    by (simp_all add: binary64_zero binary64_numeral binary64_neg_numeral)
  have lo: "of_int (hounsfield ([32618, 33018] ! 0)) = (- 150 :: rat)"
    and hi: "of_int (hounsfield ([32618, 33018] ! 1)) = (250 :: rat)"
    by (simp_all add: hounsfield_def)
  show ?thesis
    using window_bounds_map_to_0_and_255 [of binary64 "- 150" 250 0 "[32618, 33018]", OF r a b]
          window_bounds_map_to_0_and_255 [of binary64 "- 150" 250 1 "[32618, 33018]", OF r a b]
          r a b lo hi
    by simp
qed

text \<open>
  C4, as stated, fails: in the window \<open>(0, 4)\<close> the pixel of Hounsfield value 1 has
  \<open>normalized = 1/4\<close> and \<open>normalized * 255 = 63.75\<close>; the source writes 63, and
  rounding to nearest gives 64.
\<close>

theorem rounding_counterexample:
  "clip_and_normalize binary64 [of_int (hounsfield 32769)] 0 4 = [Finite (1 / 4)] \<and>
   convert_slice binary64 [32769] 0 4 = [Some 63] \<and>
   spec_scale_to_8bit (1 / 4) = 64"
  by code_simp

text \<open>
  C4, as amended: for every raw pixel and valid window, the 8-bit output is the integer
  part of \<open>normalized * 255\<close>, where \<open>normalized = (clipped - clip_min) / (clip_max - clip_min)\<close>;
  the fraction is dropped by the cast, and the product lies in \<open>[0, 255]\<close>, so that
  nothing wraps.
\<close>

theorem scaling_truncates:
  assumes "float_rounding rnd" and "rnd clip_min = clip_min" and "rnd clip_max = clip_max"
    and "clip_min < clip_max" and "i < length raw"
  shows "\<exists>normalized.
           normalized = rnd (rnd (np_clip (of_int (hounsfield (raw ! i))) clip_min clip_max - clip_min)
                             / rnd (clip_max - clip_min)) \<and>
           clip_and_normalize rnd (map (\<lambda>p. of_int (hounsfield p)) raw) clip_min clip_max ! i
             = Finite normalized \<and>
           convert_slice rnd raw clip_min clip_max ! i
             = Some (word_of_int \<lfloor>rnd (normalized * 255)\<rfloor>) \<and>
           0 \<le> \<lfloor>rnd (normalized * 255)\<rfloor> \<and> \<lfloor>rnd (normalized * 255)\<rfloor> \<le> 255"
proof -
  note p = valid_window_pixel[OF assms]
  have "0 \<le> \<lfloor>rnd (rnd (rnd (np_clip (of_int (hounsfield (raw ! i))) clip_min clip_max - clip_min)
                             / rnd (clip_max - clip_min)) * 255)\<rfloor>"
    using p(5) by simp
  moreover have "\<lfloor>rnd (rnd (rnd (np_clip (of_int (hounsfield (raw ! i))) clip_min clip_max - clip_min)
                             / rnd (clip_max - clip_min)) * 255)\<rfloor> \<le> 255"
    using p(6) by (simp add: floor_le_iff)
  ultimately show ?thesis using p(1,3) by blast
qed

theorem scaling_truncates_witness:
  "float_rounding binary64 \<and> binary64 0 = 0 \<and> binary64 4 = 4 \<and> (0 :: rat) < 4 \<and>
   0 < length [32769 :: 16 word] \<and>
   (\<exists>normalized.
      clip_and_normalize binary64 (map (\<lambda>p. of_int (hounsfield p)) [32769]) 0 4 ! 0 = Finite normalized \<and>
      convert_slice binary64 [32769] 0 4 ! 0 = Some (word_of_int \<lfloor>binary64 (normalized * 255)\<rfloor>))"
proof -
  have r: "float_rounding binary64"
    by (rule float_rounding_binary64)
  have a: "binary64 0 = 0" and b: "binary64 4 = 4"
    by (simp_all add: binary64_zero binary64_numeral binary64_neg_numeral)
  show ?thesis
    using scaling_truncates [of binary64 0 4 0 "[32769]", OF r a b] r a b
    by auto
qed

section \<open>Windowing normalizer: parsing and the loop over the rows\<close>

lemma try_map_Inr_iff:
  "(\<exists>ys. try_map f xs = Inr ys) \<longleftrightarrow> (\<forall>x \<in> set xs. \<exists>y. f x = Inr y)"
  by (induction xs) (auto split: sum.splits)

lemma try_map_Inr_length: "try_map f xs = Inr ys \<Longrightarrow> length ys = length xs"
  by (induction xs arbitrary: ys) (auto split: sum.splits)

lemma try_map_Inr_nth:
  "try_map f xs = Inr ys \<Longrightarrow> i < length xs \<Longrightarrow> f (xs ! i) = Inr (ys ! i)"
proof (induction xs arbitrary: ys i)
  case Nil
  then show ?case by simp
next
  case (Cons x xs)
  then show ?case
    by (cases i) (auto split: sum.splits)
qed

lemma try_map_Inl: "try_map f xs = Inl e \<Longrightarrow> \<exists>x \<in> set xs. f x = Inl e"
  by (induction xs) (auto split: sum.splits)

lemma parse_DICOM_windows_malformed:
  "(\<exists>e. parse_DICOM_windows float c = Inl e) \<longleftrightarrow> malformed_window float c"
proof (cases c)
  case NonString
  then show ?thesis
    by (simp add: parse_DICOM_windows_def malformed_window_def)
next
  case (Text s)
  let ?f = "\<lambda>v. case float (py_strip v) of None \<Rightarrow> Inl ValueError | Some x \<Rightarrow> Inr x"
  let ?fields = "py_split CHR '','' s"
  show ?thesis
  proof (cases "try_map ?f ?fields")
    case (Inl e)
    then obtain v where "v \<in> set ?fields" "?f v = Inl e"
      using try_map_Inl by fastforce
    then have "\<exists>v \<in> set ?fields. float (py_strip v) = None"
      by (auto split: option.splits)
    then show ?thesis
      using Text Inl by (simp add: parse_DICOM_windows_def malformed_window_def)
  next
    case (Inr ws)
    then have all: "\<forall>v \<in> set ?fields. \<exists>y. ?f v = Inr y"
      using try_map_Inr_iff[of ?f ?fields] by blast
    have ok: "\<not> (\<exists>v \<in> set ?fields. float (py_strip v) = None)"
    proof
      assume "\<exists>v \<in> set ?fields. float (py_strip v) = None"
      then obtain v where "v \<in> set ?fields" "float (py_strip v) = None" by blast
      then show False using all by fastforce
    qed
    have len: "length ws = length ?fields"
      using Inr by (rule try_map_Inr_length)
    show ?thesis
      using Text Inr ok len
      by (cases ws; cases "tl ws")
         (auto simp: parse_DICOM_windows_def malformed_window_def split: list.splits)
  qed
qed

lemma select_window_malformed:
  "malformed_window float (DICOM_windows row) \<Longrightarrow>
     select_window float row = ((- 150, 250), [invalid_window_message row])"
  using parse_DICOM_windows_malformed[of float "DICOM_windows row"]
  by (auto simp: select_window_def split: sum.splits)

lemma select_window_first_two:
  assumes "\<not> malformed_window float (DICOM_windows row)"
  shows "\<exists>s w0 w1. DICOM_windows row = Text s \<and>
           float (py_strip (py_split CHR '','' s ! 0)) = Some w0 \<and>
           float (py_strip (py_split CHR '','' s ! 1)) = Some w1 \<and>
           select_window float row = ((w0, w1), [])"
proof -
  let ?f = "\<lambda>v. case float (py_strip v) of None \<Rightarrow> Inl ValueError | Some x \<Rightarrow> Inr x"
  obtain s where s: "DICOM_windows row = Text s"
    using assms by (cases "DICOM_windows row") (auto simp: malformed_window_def)
  let ?fields = "py_split CHR '','' s"
  have len: "2 \<le> length ?fields" and ok: "\<forall>v \<in> set ?fields. float (py_strip v) \<noteq> None"
    using assms s by (auto simp: malformed_window_def)
  have "\<forall>v \<in> set ?fields. \<exists>y. ?f v = Inr y"
    using ok by (auto split: option.splits)
  then obtain ws where ws: "try_map ?f ?fields = Inr ws"
    using try_map_Inr_iff[of ?f ?fields] by blast
  have lw: "length ws = length ?fields"
    using ws by (rule try_map_Inr_length)
  then obtain w0 w1 rest where w: "ws = w0 # w1 # rest"
    using len by (cases ws; cases "tl ws") auto
  have i0: "0 < length ?fields" and i1: "1 < length ?fields"
    using len by linarith+
  have "?f (?fields ! 0) = Inr (ws ! 0)" "?f (?fields ! 1) = Inr (ws ! 1)"
    using try_map_Inr_nth[OF ws i0] try_map_Inr_nth[OF ws i1] by blast+
  then have f0: "float (py_strip (?fields ! 0)) = Some w0" and f1: "float (py_strip (?fields ! 1)) = Some w1"
    using w by (auto split: option.splits)
  have "select_window float row = ((w0, w1), [])"
    using s ws w by (simp add: select_window_def parse_DICOM_windows_def)
  then show ?thesis using s f0 f1 by blast
qed

lemma stdout_convert_image:
  "\<exists>l. stdout (convert_image env rnd d a b st im) = stdout st @ l"
  by (simp add: convert_image_def split: option.splits)

lemma stdout_convert_images:
  "\<exists>l. stdout (foldl (convert_image env rnd d a b) st ims) = stdout st @ l"
proof (induction ims arbitrary: st)
  case Nil
  then show ?case by simp
next
  case (Cons im ims)
  obtain l1 where l1: "stdout (convert_image env rnd d a b st im) = stdout st @ l1"
    using stdout_convert_image by blast
  obtain l2 where "stdout (foldl (convert_image env rnd d a b) (convert_image env rnd d a b st im) ims)
                     = stdout (convert_image env rnd d a b st im) @ l2"
    using Cons.IH by blast
  then show ?case using l1 by simp
qed

lemma stdout_process_row:
  "\<exists>l. stdout (process_row env rnd float st row) = stdout st @ snd (select_window float row) @ l"
proof -
  obtain w p where sw: "select_window float row = (w, p)" by (cases "select_window float row")
  obtain a b where w: "w = (a, b)" by (cases w)
  show ?thesis
    using stdout_convert_images
            [of env rnd "os_path_join dir_out (py_rsplit1_head CHR ''_'' (File_name row))" a b
                "st\<lparr>directories := insert (os_path_join dir_out (py_rsplit1_head CHR ''_'' (File_name row)))
                                            (directories st),
                    stdout := stdout st @ p\<rparr>"
                "glob_png env (os_path_join dir_in (py_rsplit1_head CHR ''_'' (File_name row)))"]
    by (simp add: process_row_def sw w Let_def)
qed

lemma stdout_process_rows:
  "\<exists>l. stdout (process_rows env rnd float st rows) = stdout st @ l"
proof (induction rows arbitrary: st)
  case Nil
  then show ?case by (simp add: process_rows_def)
next
  case (Cons row rows)
  obtain l1 where l1: "stdout (process_row env rnd float st row) = stdout st @ l1"
    using stdout_process_row by (metis append.assoc)
  obtain l2 where "stdout (process_rows env rnd float (process_row env rnd float st row) rows)
                     = stdout (process_row env rnd float st row) @ l2"
    using Cons.IH by blast
  then show ?case using l1 by (simp add: process_rows_def)
qed

lemma process_rows_append:
  "process_rows env rnd float st (before @ row # after) =
     process_rows env rnd float (process_row env rnd float (process_rows env rnd float st before) row) after"
  by (simp add: process_rows_def)

section \<open>Windowing normalizer: the degenerate window\<close>

text \<open>
  With \<open>clip_max = clip_min\<close> every pixel is clipped to the bound, and the rescale divides
  zero by zero: the normalized image is \<^verbatim>\<open>nan\<close> throughout and no byte written is defined.
\<close>

lemma degenerate_window_nan:
  "rnd 0 = 0 \<Longrightarrow> clip_and_normalize rnd img c c = map (\<lambda>a. NaN) img"
  by (simp add: clip_and_normalize_def np_clip_def true_divide_def)

lemma degenerate_window_undefined:
  "rnd 0 = 0 \<Longrightarrow> convert_slice rnd raw c c = map (\<lambda>p. None) raw"
  by (simp add: convert_slice_def scale_slice_def clip_and_normalize_def np_clip_def true_divide_def)

text \<open>
  C1 says that a window with \<open>clip_max = clip_min\<close> is treated as malformed and replaced
  by the default bounds before the division. The source does not do so: the row whose
  window is \<^verbatim>\<open>"100, 100"\<close> parses, the window \<open>(100, 100)\<close> is kept and no diagnostic is
  printed for it; the rescale divides zero by zero for every pixel (which NumPy does not
  raise on), the normalized image is \<^verbatim>\<open>nan\<close> throughout and the bytes written for the
  readable slice are undefined. The one line printed is for the unreadable slice of the
  example tree.
\<close>

theorem degenerate_window_is_used:
  "select_window float_decimal
     \<lparr>File_name = ''000001_01_01_109.png'', DICOM_windows = Text ''100, 100''\<rparr> = ((100, 100), []) \<and>
   clip_and_normalize binary64 [of_int (hounsfield 0), of_int (hounsfield 32868), of_int (hounsfield 65535)]
     100 100 = [NaN, NaN, NaN] \<and>
   convert_slice binary64 [0, 32868, 65535] 100 100 = [None, None, None] \<and>
   written (process_rows example_environment binary64 float_decimal initial_state
              [\<lparr>File_name = ''000001_01_01_109.png'', DICOM_windows = Text ''100, 100''\<rparr>])
     ''./DeepLesion/deeplesion_images/Images_png_wn/000001_01_01/108.png'' = Some [None, None, None] \<and>
   stdout (process_rows example_environment binary64 float_decimal initial_state
              [\<lparr>File_name = ''000001_01_01_109.png'', DICOM_windows = Text ''100, 100''\<rparr>])
     = [''Failed to convert ./DeepLesion/deeplesion_images/Images_png/000001_01_01/109.png: ''
          @ astype_on_None]"
  by code_simp

section \<open>Windowing normalizer: malformed windows\<close>

text \<open>
  C6, as stated, fails: \<^verbatim>\<open>"1, 2, 3"\<close> does not parse as exactly two floats, yet the source
  takes its first two values as the window and prints nothing.
\<close>

theorem three_floats_counterexample:
  "map float_decimal (map py_strip (py_split CHR '','' ''1, 2, 3'')) = [Some 1, Some 2, Some 3] \<and>
   select_window float_decimal
     \<lparr>File_name = ''000001_01_01_109.png'', DICOM_windows = Text ''1, 2, 3''\<rparr> = ((1, 2), [])"
  by code_simp

text \<open>
  C6, as amended: for every row whose window cell is not a string, has fewer than two
  comma-separated fields (such as \<^verbatim>\<open>"abc"\<close>, \<^verbatim>\<open>"1"\<close> or the empty string) or has a field
  that is not a float, the normalizer takes the default bounds \<open>(-150, 250)\<close>, prints a
  diagnostic that names the file, converts the slices of the row with the default bounds
  and goes on with the rows that follow. Every other cell is accepted: its first two
  fields are the window, whatever follows them, and nothing is printed.
\<close>

theorem malformed_window_falls_back:
  "(malformed_window float (DICOM_windows row) \<longrightarrow>
      select_window float row = ((- 150, 250), [invalid_window_message row]) \<and>
      process_row env rnd float st row =
        foldl (convert_image env rnd (os_path_join dir_out (py_rsplit1_head CHR ''_'' (File_name row)))
                 (- 150) 250)
              (st\<lparr>directories :=
                    insert (os_path_join dir_out (py_rsplit1_head CHR ''_'' (File_name row)))
                           (directories st),
                  stdout := stdout st @ [invalid_window_message row]\<rparr>)
              (glob_png env (os_path_join dir_in (py_rsplit1_head CHR ''_'' (File_name row)))) \<and>
      process_rows env rnd float st (before @ row # after) =
        process_rows env rnd float
          (process_row env rnd float (process_rows env rnd float st before) row) after \<and>
      (\<exists>l1 l2. stdout (process_rows env rnd float st (before @ row # after))
                 = l1 @ [invalid_window_message row] @ l2)) \<and>
   (\<not> malformed_window float (DICOM_windows row) \<longrightarrow>
      (\<exists>s w0 w1. DICOM_windows row = Text s \<and>
         float (py_strip (py_split CHR '','' s ! 0)) = Some w0 \<and>
         float (py_strip (py_split CHR '','' s ! 1)) = Some w1 \<and>
         select_window float row = ((w0, w1), [])))"
proof (intro conjI impI)
  assume bad: "malformed_window float (DICOM_windows row)"
  show sw: "select_window float row = ((- 150, 250), [invalid_window_message row])"
    using bad by (rule select_window_malformed)
  show "process_row env rnd float st row =
        foldl (convert_image env rnd (os_path_join dir_out (py_rsplit1_head CHR ''_'' (File_name row)))
                 (- 150) 250)
              (st\<lparr>directories :=
                    insert (os_path_join dir_out (py_rsplit1_head CHR ''_'' (File_name row)))
                           (directories st),
                  stdout := stdout st @ [invalid_window_message row]\<rparr>)
              (glob_png env (os_path_join dir_in (py_rsplit1_head CHR ''_'' (File_name row))))"
    by (simp add: process_row_def sw Let_def)
  show ap: "process_rows env rnd float st (before @ row # after) =
           process_rows env rnd float
             (process_row env rnd float (process_rows env rnd float st before) row) after"
    by (rule process_rows_append)
  obtain l where l: "stdout (process_row env rnd float (process_rows env rnd float st before) row)
                       = stdout (process_rows env rnd float st before) @ [invalid_window_message row] @ l"
    using stdout_process_row[of env rnd float "process_rows env rnd float st before" row] sw by auto
  obtain l' where "stdout (process_rows env rnd float st (before @ row # after))
                     = stdout (process_row env rnd float (process_rows env rnd float st before) row) @ l'"
    using stdout_process_rows ap by metis
  then have "stdout (process_rows env rnd float st (before @ row # after))
               = stdout (process_rows env rnd float st before) @ [invalid_window_message row] @ (l @ l')"
    using l by simp
  then show "\<exists>l1 l2. stdout (process_rows env rnd float st (before @ row # after))
                    = l1 @ [invalid_window_message row] @ l2"
    by blast
next
  assume "\<not> malformed_window float (DICOM_windows row)"
  then show "\<exists>s w0 w1. DICOM_windows row = Text s \<and>
         float (py_strip (py_split CHR '','' s ! 0)) = Some w0 \<and>
         float (py_strip (py_split CHR '','' s ! 1)) = Some w1 \<and>
         select_window float row = ((w0, w1), [])"
    by (rule select_window_first_two)
qed

theorem malformed_window_falls_back_witness:
  "malformed_window float_decimal (DICOM_windows \<lparr>File_name = ''000002_01_01_014.png'', DICOM_windows = Text ''abc''\<rparr>) \<and>
   malformed_window float_decimal (DICOM_windows \<lparr>File_name = ''000003_01_01_020.png'', DICOM_windows = Text ''1''\<rparr>) \<and>
   malformed_window float_decimal (DICOM_windows \<lparr>File_name = ''000004_01_01_033.png'', DICOM_windows = Text []\<rparr>) \<and>
   select_window float_decimal \<lparr>File_name = ''000002_01_01_014.png'', DICOM_windows = Text ''abc''\<rparr>
     = ((- 150, 250), [''Invalid DICOM window for 000002_01_01_014.png, using default'']) \<and>
   select_window float_decimal \<lparr>File_name = ''000003_01_01_020.png'', DICOM_windows = Text ''1''\<rparr>
     = ((- 150, 250), [''Invalid DICOM window for 000003_01_01_020.png, using default'']) \<and>
   select_window float_decimal \<lparr>File_name = ''000004_01_01_033.png'', DICOM_windows = Text []\<rparr>
     = ((- 150, 250), [''Invalid DICOM window for 000004_01_01_033.png, using default'']) \<and>
   \<not> malformed_window float_decimal (DICOM_windows \<lparr>File_name = ''000006_01_01_051.png'', DICOM_windows = Text ''1, 2, 3''\<rparr>) \<and>
   (\<exists>w0 w1. select_window float_decimal \<lparr>File_name = ''000006_01_01_051.png'', DICOM_windows = Text ''1, 2, 3''\<rparr>
               = ((w0, w1), [])) \<and>
   (\<exists>l1 l2. stdout (process_rows example_environment binary64 float_decimal initial_state
                      ([\<lparr>File_name = ''000001_01_01_109.png'', DICOM_windows = Text ''-175, 275''\<rparr>]
                       @ \<lparr>File_name = ''000002_01_01_014.png'', DICOM_windows = Text ''abc''\<rparr>
                       # [\<lparr>File_name = ''000005_01_01_007.png'', DICOM_windows = Text ''-175, 275''\<rparr>]))
              = l1 @ [''Invalid DICOM window for 000002_01_01_014.png, using default''] @ l2)"
proof -
  have m1: "malformed_window float_decimal
              (DICOM_windows \<lparr>File_name = ''000002_01_01_014.png'', DICOM_windows = Text ''abc''\<rparr>)"
    and m2: "malformed_window float_decimal
              (DICOM_windows \<lparr>File_name = ''000003_01_01_020.png'', DICOM_windows = Text ''1''\<rparr>)"
    and m3: "malformed_window float_decimal
              (DICOM_windows \<lparr>File_name = ''000004_01_01_033.png'', DICOM_windows = Text []\<rparr>)"
    by (simp_all add: malformed_window_def)
  have g: "\<not> malformed_window float_decimal
              (DICOM_windows \<lparr>File_name = ''000006_01_01_051.png'', DICOM_windows = Text ''1, 2, 3''\<rparr>)"
    by code_simp
  note w1 = malformed_window_falls_back
            [THEN conjunct1, rule_format, OF m1, of example_environment binary64 initial_state
               "[\<lparr>File_name = ''000001_01_01_109.png'', DICOM_windows = Text ''-175, 275''\<rparr>]"
               "[\<lparr>File_name = ''000005_01_01_007.png'', DICOM_windows = Text ''-175, 275''\<rparr>]"]
  note w2 = malformed_window_falls_back
            [THEN conjunct1, rule_format, OF m2, of example_environment binary64 initial_state "[]" "[]"]
  note w3 = malformed_window_falls_back
            [THEN conjunct1, rule_format, OF m3, of example_environment binary64 initial_state "[]" "[]"]
  have w4: "\<exists>w0 w1. select_window float_decimal
                       \<lparr>File_name = ''000006_01_01_051.png'', DICOM_windows = Text ''1, 2, 3''\<rparr>
                     = ((w0, w1), [])"
    using malformed_window_falls_back
            [of float_decimal "\<lparr>File_name = ''000006_01_01_051.png'', DICOM_windows = Text ''1, 2, 3''\<rparr>",
             THEN conjunct2, rule_format, OF g]
    by blast
  show ?thesis
    using m1 m2 m3 g w4 w1[THEN conjunct1] w2[THEN conjunct1] w3[THEN conjunct1]
          w1[THEN conjunct2, THEN conjunct2, THEN conjunct2]
    unfolding invalid_window_message_def by simp
qed

section \<open>Detection converter: the prediction path\<close>

text \<open>
  C10: for every input path, \<open>get_prediction_filepath\<close> returns the same prediction path
  for every run number; the string computed from the run number is not part of the result,
  which depends only on the last component of the input path.
\<close>

theorem get_prediction_filepath_ignores_run_number:
  "last (py_split CHR ''/'' filepath1) = last (py_split CHR ''/'' filepath2) \<Longrightarrow>
     get_prediction_filepath filepath1 run_number1 = get_prediction_filepath filepath2 run_number2"
  by (simp add: get_prediction_filepath_def)

theorem get_prediction_filepath_ignores_run_number_witness:
  "last (py_split CHR ''/'' ''/data/val/img_7.png'') = last (py_split CHR ''/'' ''img_7.png'') \<and>
   get_prediction_filepath ''/data/val/img_7.png'' 2 = get_prediction_filepath ''img_7.png'' 1"
  using get_prediction_filepath_ignores_run_number
          [of "''/data/val/img_7.png''" "''img_7.png''" 2 1]
  by simp

section \<open>Detection converter: properties of the helpers\<close>

lemma py_index_error: "py_index xs i = Inl e \<Longrightarrow> e = IndexError"
  by (auto simp: py_index_def split: if_splits)

lemma py_index_Inl_iff:
  "py_index xs i = Inl IndexError \<longleftrightarrow> int (length xs) \<le> i \<or> i < - int (length xs)"
  by (auto simp: py_index_def)

lemma py_index_in_range:
  "- int (length xs) \<le> i \<Longrightarrow> i < int (length xs) \<Longrightarrow>
     py_index xs i = Inr (xs ! nat (if i < 0 then int (length xs) + i else i))"
  by (auto simp: py_index_def)

lemma try_map_all_Inr:
  "\<forall>x \<in> set xs. f x = Inr (g x) \<Longrightarrow> try_map f xs = Inr (map g xs)"
  by (induction xs) auto

lemma try_map_some_Inl:
  "x \<in> set xs \<Longrightarrow> f x = Inl e \<Longrightarrow> \<exists>e'. try_map f xs = Inl e'"
  using try_map_Inr_iff[of f xs] by (cases "try_map f xs") auto

lemma get_class_labels_error:
  "get_class_labels predicted_classes class_list = Inl e \<Longrightarrow> e = IndexError"
  unfolding get_class_labels_def Let_def
  using try_map_Inl py_index_error by fastforce

lemma get_class_labels_Inl_iff:
  "get_class_labels predicted_classes class_list = Inl IndexError \<longleftrightarrow>
     (\<exists>c \<in> set predicted_classes.
        int (length class_list) \<le> trunc c \<or> trunc c < - int (length class_list))"
proof
  assume "get_class_labels predicted_classes class_list = Inl IndexError"
  then obtain l where "l \<in> set (map trunc predicted_classes)" "py_index class_list l = Inl IndexError"
    unfolding get_class_labels_def Let_def using try_map_Inl by fastforce
  then show "\<exists>c \<in> set predicted_classes.
        int (length class_list) \<le> trunc c \<or> trunc c < - int (length class_list)"
    by (auto simp: py_index_Inl_iff)
next
  assume "\<exists>c \<in> set predicted_classes.
        int (length class_list) \<le> trunc c \<or> trunc c < - int (length class_list)"
  then obtain c where c: "c \<in> set predicted_classes"
      "int (length class_list) \<le> trunc c \<or> trunc c < - int (length class_list)" by blast
  then have "trunc c \<in> set (map trunc predicted_classes)" "py_index class_list (trunc c) = Inl IndexError"
    by (simp_all add: py_index_Inl_iff)
  then obtain e where "get_class_labels predicted_classes class_list = Inl e"
    unfolding get_class_labels_def Let_def using try_map_some_Inl by fast
  then show "get_class_labels predicted_classes class_list = Inl IndexError"
    using get_class_labels_error by blast
qed

lemma get_class_labels_in_range:
  assumes "\<forall>c \<in> set predicted_classes.
             - int (length class_list) \<le> trunc c \<and> trunc c < int (length class_list)"
  shows "get_class_labels predicted_classes class_list =
           Inr (map (\<lambda>c. class_list ! nat (if trunc c < 0 then int (length class_list) + trunc c
                                            else trunc c)) predicted_classes)"
proof -
  have "try_map (py_index class_list) (map trunc predicted_classes) =
          Inr (map (\<lambda>l. class_list ! nat (if l < 0 then int (length class_list) + l else l))
                   (map trunc predicted_classes))"
    by (rule try_map_all_Inr) (use assms in \<open>auto simp: py_index_in_range\<close>)
  then show ?thesis
    by (simp add: get_class_labels_def comp_def)
qed

lemma trunc_of_int: "trunc (of_int n) = n"
  by (simp add: trunc_def)

lemma uncenter_boxes_error: "uncenter_boxes rnd boxes = Inl e \<Longrightarrow> e = IndexError"
  by (auto simp: uncenter_boxes_def Let_def split: if_splits)

lemma uncenter_boxes_length: "uncenter_boxes rnd boxes = Inr boxes' \<Longrightarrow> length boxes' = length boxes"
  by (auto simp: uncenter_boxes_def Let_def split: if_splits)

lemma uncenter_boxes_wide:
  assumes "\<forall>b \<in> set boxes. 4 \<le> length b"
  shows "uncenter_boxes rnd boxes =
           Inr (map (\<lambda>b. b[0 := rnd (b ! 0 - rnd (b ! 2 / 2)), 1 := rnd (b ! 1 - rnd (b ! 3 / 2))]) boxes)"
proof -
  have "\<not> (\<exists>b \<in> set boxes. length b < 3)" "\<not> (\<exists>b \<in> set boxes. length b < 4)"
    using assms by fastforce+
  then show ?thesis
    by (simp add: uncenter_boxes_def Let_def comp_def)
qed

lemma uncenter_boxes_narrow:
  assumes "b \<in> set boxes" "length b < 4"
  shows "uncenter_boxes rnd boxes = Inl IndexError"
  using assms by (fastforce simp: uncenter_boxes_def Let_def)

lemma map_hd_map2:
  "length bs = length rs \<Longrightarrow> map hd (map2 (\<lambda>r b. hd r # b @ [last r]) rs bs) = map hd rs"
  by (induction rs bs rule: list_induct2') auto

lemma map_last_map2:
  "length bs = length rs \<Longrightarrow> map last (map2 (\<lambda>r b. hd r # b @ [last r]) rs bs) = map last rs"
  by (induction rs bs rule: list_induct2') auto

lemma zip3_map:
  "zip (map f xs) (zip (map g xs) (map h xs)) = map (\<lambda>x. (f x, g x, h x)) xs"
  by (induction xs) auto

lemma np_size_pos: "r \<in> set a \<Longrightarrow> r \<noteq> [] \<Longrightarrow> np_size a \<noteq> 0"
  by (induction a) (auto simp: np_size_def)

lemmas eval_converter =
  convert_yolo_detections_to_fiftyone_def uncenter_boxes_def get_class_labels_def py_index_def
  np_size_def np_array_def read_yolo_detections_file_def add_yolo_detections_def
  py_rstrip_newline_def decimal_value_def unsigned_decimal_def py_strip_def is_space_def
  is_digit_def digits_value_def exact_def trunc_def

lemma fewer_than_six_fields_raise:
  assumes "row \<in> set yolo_detections" and "row \<noteq> []" and "length row < 6"
  shows "convert_yolo_detections_to_fiftyone rnd yolo_detections class_list = Inl IndexError"
proof -
  have "butlast (tl row) \<in> set (map (\<lambda>r. butlast (tl r)) yolo_detections)"
    using assms(1) by simp
  moreover have "length (butlast (tl row)) < 4"
    using assms(3) by simp
  ultimately have "uncenter_boxes rnd (map (\<lambda>r. butlast (tl r)) yolo_detections) = Inl IndexError"
    by (rule uncenter_boxes_narrow)
  then show ?thesis
    using np_size_pos[OF assms(1,2)] by (simp add: convert_yolo_detections_to_fiftyone_def)
qed

lemma np_array_Inr: "np_array rows = Inr a \<Longrightarrow> a = rows"
  by (auto simp: np_array_def split: list.splits if_splits)

lemma try_map_float_values:
  assumes "try_map (\<lambda>l. case float l of None \<Rightarrow> Inl ValueError | Some x \<Rightarrow> Inr x) ls = Inr xs"
  shows "map Some xs = map float ls"
proof (rule nth_equalityI)
  show "length (map Some xs) = length (map float ls)"
    using try_map_Inr_length[OF assms] by simp
next
  fix i assume "i < length (map Some xs)"
  then have i: "i < length ls"
    using try_map_Inr_length[OF assms] by simp
  from try_map_Inr_nth[OF assms i]
  have "float (ls ! i) = Some (xs ! i)"
    by (auto split: option.splits)
  then show "map Some xs ! i = map float ls ! i"
    using i try_map_Inr_length[OF assms] by simp
qed

lemma read_yolo_detections_file_rows:
  assumes "read_yolo_detections_file fs float filepath = Inr yolo_detections"
    and "fs filepath = Some (RegularFile f)"
  shows "length yolo_detections = length f"
    and "i < length f \<Longrightarrow>
           map Some (yolo_detections ! i) = map float (py_split CHR '' '' (py_rstrip_newline (f ! i)))"
proof -
  let ?g = "\<lambda>l. case float l of None \<Rightarrow> Inl ValueError | Some x \<Rightarrow> Inr x"
  let ?lines = "map (\<lambda>line. py_split CHR '' '' (py_rstrip_newline line)) f"
  obtain detections where d: "try_map (try_map ?g) ?lines = Inr detections"
    and a: "np_array detections = Inr yolo_detections"
    using assms by (auto simp: read_yolo_detections_file_def Let_def split: sum.splits)
  have eq: "yolo_detections = detections"
    using a by (rule np_array_Inr)
  show "length yolo_detections = length f"
    using try_map_Inr_length[OF d] eq by simp
  show "map Some (yolo_detections ! i) = map float (py_split CHR '' '' (py_rstrip_newline (f ! i)))"
    if "i < length f"
  proof -
    have "try_map ?g (?lines ! i) = Inr (detections ! i)"
      using try_map_Inr_nth[OF d, of i] that by simp
    then have "map Some (detections ! i) = map float (?lines ! i)"
      by (rule try_map_float_values)
    then show ?thesis using that eq by simp
  qed
qed

lemma convert_rows_of_at_least_six:
  assumes "yolo_detections \<noteq> []"
    and "\<forall>r \<in> set yolo_detections. length r = n" and "6 \<le> n"
    and "\<forall>r \<in> set yolo_detections.
           - int (length class_list) \<le> trunc (hd r) \<and> trunc (hd r) < int (length class_list)"
  shows "convert_yolo_detections_to_fiftyone rnd yolo_detections class_list =
           Inr (map (\<lambda>r. \<lparr>label = class_list ! nat (if trunc (hd r) < 0
                                                     then int (length class_list) + trunc (hd r)
                                                     else trunc (hd r)),
                          bounding_box = (butlast (tl r))[0 := rnd (r ! 1 - rnd (r ! 3 / 2)),
                                                          1 := rnd (r ! 2 - rnd (r ! 4 / 2))],
                          confidence = last r\<rparr>)
                    yolo_detections) \<and>
         (\<forall>r \<in> set yolo_detections.
            length ((butlast (tl r))[0 := rnd (r ! 1 - rnd (r ! 3 / 2)),
                                     1 := rnd (r ! 2 - rnd (r ! 4 / 2))]) = n - 2) \<and>
         (n = 6 \<longrightarrow>
            (\<forall>r \<in> set yolo_detections.
               (butlast (tl r))[0 := rnd (r ! 1 - rnd (r ! 3 / 2)), 1 := rnd (r ! 2 - rnd (r ! 4 / 2))]
                 = [rnd (r ! 1 - rnd (r ! 3 / 2)), rnd (r ! 2 - rnd (r ! 4 / 2)), r ! 3, r ! 4]))"
proof -
  let ?lab = "\<lambda>c. class_list ! nat (if trunc c < 0 then int (length class_list) + trunc c else trunc c)"
  let ?box = "\<lambda>r. (butlast (tl r))[0 := rnd (r ! 1 - rnd (r ! 3 / 2)), 1 := rnd (r ! 2 - rnd (r ! 4 / 2))]"
  let ?upd = "\<lambda>b. b[0 := rnd (b ! 0 - rnd (b ! 2 / 2)), 1 := rnd (b ! 1 - rnd (b ! 3 / 2))]"
  obtain r0 where r0: "r0 \<in> set yolo_detections"
    using assms(1) by (cases yolo_detections) auto
  then have "r0 \<noteq> []" using assms(2,3) by auto
  then have size: "np_size yolo_detections \<noteq> 0"
    using r0 np_size_pos by blast
  have wide: "\<forall>b \<in> set (map (\<lambda>r. butlast (tl r)) yolo_detections). 4 \<le> length b"
    using assms(2,3) by auto
  have idx: "?upd (butlast (tl r)) = ?box r" if "r \<in> set yolo_detections" for r
  proof -
    have "6 \<le> length r" using that assms(2,3) by simp
    then obtain c cx cy w h x xs where "r = c # cx # cy # w # h # x # xs"
      by (auto simp: Suc_le_length_iff eval_nat_numeral)
    then show ?thesis by (simp add: eval_nat_numeral)
  qed
  have boxes: "uncenter_boxes rnd (map (\<lambda>r. butlast (tl r)) yolo_detections) =
                 Inr (map ?box yolo_detections)"
    using uncenter_boxes_wide[OF wide, of rnd] idx by (simp add: comp_def)
  have labels: "get_class_labels (map hd yolo_detections) class_list =
                  Inr (map (\<lambda>r. ?lab (hd r)) yolo_detections)"
    using get_class_labels_in_range[of "map hd yolo_detections" class_list] assms(4)
    by (simp add: comp_def)
  have hd': "map hd (map2 (\<lambda>r b. hd r # b @ [last r]) yolo_detections (map ?box yolo_detections))
               = map hd yolo_detections"
    by (rule map_hd_map2) simp
  have last': "map last (map2 (\<lambda>r b. hd r # b @ [last r]) yolo_detections (map ?box yolo_detections))
               = map last yolo_detections"
    by (rule map_last_map2) simp
  have "convert_yolo_detections_to_fiftyone rnd yolo_detections class_list =
          Inr (map (\<lambda>(label, conf, box). \<lparr>label = label, bounding_box = box, confidence = conf\<rparr>)
                   (zip (map (\<lambda>r. ?lab (hd r)) yolo_detections)
                        (zip (map last yolo_detections) (map ?box yolo_detections))))"
    by (simp only: convert_yolo_detections_to_fiftyone_def Let_def size if_False boxes sum.case
                   hd' last' labels)
  then have main: "convert_yolo_detections_to_fiftyone rnd yolo_detections class_list =
           Inr (map (\<lambda>r. \<lparr>label = ?lab (hd r), bounding_box = ?box r, confidence = last r\<rparr>)
                    yolo_detections)"
    by (simp add: zip3_map)
  have len: "\<forall>r \<in> set yolo_detections. length (?box r) = n - 2"
    using assms(2) by (simp add: eval_nat_numeral)
  have six: "\<forall>r \<in> set yolo_detections.
               ?box r = [rnd (r ! 1 - rnd (r ! 3 / 2)), rnd (r ! 2 - rnd (r ! 4 / 2)), r ! 3, r ! 4]"
    if "n = 6"
  proof
    fix r assume "r \<in> set yolo_detections"
    then have "length r = 6" using assms(2) that by simp
    then obtain c cx cy w h conf where "r = [c, cx, cy, w, h, conf]"
      by (auto simp: length_Suc_conv eval_nat_numeral)
    then show "?box r = [rnd (r ! 1 - rnd (r ! 3 / 2)), rnd (r ! 2 - rnd (r ! 4 / 2)), r ! 3, r ! 4]"
      by simp
  qed
  show ?thesis using main len six by blast
qed

section \<open>Detection converter: the fields of a line\<close>

text \<open>
  C5, as stated, fails. A line of seven fields gives a bounding box of five components:
  the box is every field between the first and the last. A line of five fields gives no
  box at all: the second statement of \<open>uncenter_boxes\<close> reads column 3 of an array of
  three columns. A line of six fields with two spaces after the first has an empty field,
  which \<^verbatim>\<open>float\<close> rejects: the source splits at every single space.
\<close>

theorem extra_or_missing_field_counterexample:
  "add_yolo_detections
     [''labels/a.txt'' \<mapsto> RegularFile [''2 0.5 0.5 0.25 0.5 0.75 0.875'' @ [CHR 0x0A]]]
     float_decimal binary64 [''labels/a.txt''] [''a'', ''b'', ''c'']
     = Inr [[\<lparr>label = ''c'', bounding_box = [3 / 8, 1 / 4, 1 / 4, 1 / 2, 3 / 4],
              confidence = 7 / 8\<rparr>]] \<and>
   add_yolo_detections
     [''labels/a.txt'' \<mapsto> RegularFile [''2 0.5 0.5 0.25 0.5'' @ [CHR 0x0A]]]
     float_decimal binary64 [''labels/a.txt''] [''a'', ''b'', ''c'']
     = Inl IndexError \<and>
   add_yolo_detections
     [''labels/a.txt'' \<mapsto> RegularFile [''2  0.5 0.5 0.25 0.5 0.875'' @ [CHR 0x0A]]]
     float_decimal binary64 [''labels/a.txt''] [''a'', ''b'', ''c'']
     = Inl ValueError"
  by code_simp

text \<open>
  C5, as amended: when the file reads as an array, whose rows are the fields of the lines
  (split at single spaces, all numeric, the same number \<open>n\<close> on every line), with \<open>n\<close> at
  least six and the class indices within the label list, the converter takes the first
  field as the class index, the last as the confidence and the \<open>n - 2\<close> fields between
  them as the box, of which the first two are moved from the centre to the corner. The
  bounding box has \<open>n - 2\<close> components; for six fields it is \<open>[x - w/2, y - h/2, w, h]\<close>.
\<close>

theorem box_is_every_field_between_first_and_last:
  assumes "fs filepath = Some (RegularFile f)"
    and "read_yolo_detections_file fs float filepath = Inr yolo_detections"
    and "yolo_detections \<noteq> []"
    and "\<forall>r \<in> set yolo_detections. length r = n" and "6 \<le> n"
    and "\<forall>r \<in> set yolo_detections.
           - int (length class_list) \<le> trunc (hd r) \<and> trunc (hd r) < int (length class_list)"
  shows "length yolo_detections = length f \<and>
         (\<forall>i < length f. map Some (yolo_detections ! i)
                            = map float (py_split CHR '' '' (py_rstrip_newline (f ! i)))) \<and>
         add_yolo_detections fs float rnd [filepath] class_list =
           Inr [map (\<lambda>r. \<lparr>label = class_list ! nat (if trunc (hd r) < 0
                                                      then int (length class_list) + trunc (hd r)
                                                      else trunc (hd r)),
                           bounding_box = (butlast (tl r))[0 := rnd (r ! 1 - rnd (r ! 3 / 2)),
                                                           1 := rnd (r ! 2 - rnd (r ! 4 / 2))],
                           confidence = last r\<rparr>)
                     yolo_detections] \<and>
         (\<forall>r \<in> set yolo_detections.
            length ((butlast (tl r))[0 := rnd (r ! 1 - rnd (r ! 3 / 2)),
                                     1 := rnd (r ! 2 - rnd (r ! 4 / 2))]) = n - 2) \<and>
         (n = 6 \<longrightarrow>
            (\<forall>r \<in> set yolo_detections.
               (butlast (tl r))[0 := rnd (r ! 1 - rnd (r ! 3 / 2)), 1 := rnd (r ! 2 - rnd (r ! 4 / 2))]
                 = [rnd (r ! 1 - rnd (r ! 3 / 2)), rnd (r ! 2 - rnd (r ! 4 / 2)), r ! 3, r ! 4]))"
proof -
  note rows = read_yolo_detections_file_rows[OF assms(2,1)]
  note conv = convert_rows_of_at_least_six[OF assms(3-6), of rnd]
  have "add_yolo_detections fs float rnd [filepath] class_list =
          (case convert_yolo_detections_to_fiftyone rnd yolo_detections class_list of
             Inl e \<Rightarrow> Inl e | Inr ds \<Rightarrow> Inr [ds])"
    using assms(2) by (simp add: add_yolo_detections_def split: sum.splits)
  then have "add_yolo_detections fs float rnd [filepath] class_list =
           Inr [map (\<lambda>r. \<lparr>label = class_list ! nat (if trunc (hd r) < 0
                                                      then int (length class_list) + trunc (hd r)
                                                      else trunc (hd r)),
                           bounding_box = (butlast (tl r))[0 := rnd (r ! 1 - rnd (r ! 3 / 2)),
                                                           1 := rnd (r ! 2 - rnd (r ! 4 / 2))],
                           confidence = last r\<rparr>)
                     yolo_detections]"
    using conv[THEN conjunct1] by simp
  then show ?thesis
    using rows conv[THEN conjunct2] by blast
qed

theorem box_is_every_field_between_first_and_last_witness:
  "[''labels/a.txt'' \<mapsto> RegularFile [''2 0.5 0.5 0.2 0.4 0.9'' @ [CHR 0x0A]]] ''labels/a.txt''
     = Some (RegularFile [''2 0.5 0.5 0.2 0.4 0.9'' @ [CHR 0x0A]]) \<and>
   read_yolo_detections_file [''labels/a.txt'' \<mapsto> RegularFile [''2 0.5 0.5 0.2 0.4 0.9'' @ [CHR 0x0A]]]
     decimal_value ''labels/a.txt'' = Inr [[2, 1 / 2, 1 / 2, 1 / 5, 2 / 5, 9 / 10]] \<and>
   [[2, 1 / 2, 1 / 2, 1 / 5, 2 / 5, 9 / 10 :: rat]] \<noteq> [] \<and>
   list_all (\<lambda>r. length r = 6) [[2, 1 / 2, 1 / 2, 1 / 5, 2 / 5, 9 / 10 :: rat]] \<and>
   (6 :: nat) \<le> 6 \<and>
   list_all (\<lambda>r. - int (length [''a'', ''b'', ''c'']) \<le> trunc (hd r) \<and>
                 trunc (hd r) < int (length [''a'', ''b'', ''c'']))
     [[2, 1 / 2, 1 / 2, 1 / 5, 2 / 5, 9 / 10 :: rat]] \<and>
   add_yolo_detections [''labels/a.txt'' \<mapsto> RegularFile [''2 0.5 0.5 0.2 0.4 0.9'' @ [CHR 0x0A]]]
     decimal_value exact [''labels/a.txt''] [''a'', ''b'', ''c'']
     = Inr [[\<lparr>label = ''c'', bounding_box = [2 / 5, 3 / 10, 1 / 5, 2 / 5], confidence = 9 / 10\<rparr>]]"
proof -
  have h0: "[''labels/a.txt'' \<mapsto> RegularFile [''2 0.5 0.5 0.2 0.4 0.9'' @ [CHR 0x0A]]] ''labels/a.txt''
              = Some (RegularFile [''2 0.5 0.5 0.2 0.4 0.9'' @ [CHR 0x0A]])"
    by simp
  have rd: "read_yolo_detections_file
              [''labels/a.txt'' \<mapsto> RegularFile [''2 0.5 0.5 0.2 0.4 0.9'' @ [CHR 0x0A]]]
              decimal_value ''labels/a.txt'' = Inr [[2, 1 / 2, 1 / 2, 1 / 5, 2 / 5, 9 / 10]]"
    by (simp add: eval_converter)
  have h1: "[[2, 1 / 2, 1 / 2, 1 / 5, 2 / 5, 9 / 10 :: rat]] \<noteq> []"
    by simp
  have h2: "\<forall>r \<in> set [[2, 1 / 2, 1 / 2, 1 / 5, 2 / 5, 9 / 10 :: rat]]. length r = 6"
    by simp
  have h3: "(6 :: nat) \<le> 6"
    by simp
  have h4: "\<forall>r \<in> set [[2, 1 / 2, 1 / 2, 1 / 5, 2 / 5, 9 / 10 :: rat]].
      - int (length [''a'', ''b'', ''c'']) \<le> trunc (hd r) \<and> trunc (hd r) < int (length [''a'', ''b'', ''c''])"
    by (simp add: trunc_def)
  have "add_yolo_detections [''labels/a.txt'' \<mapsto> RegularFile [''2 0.5 0.5 0.2 0.4 0.9'' @ [CHR 0x0A]]]
          decimal_value exact [''labels/a.txt''] [''a'', ''b'', ''c'']
        = Inr [[\<lparr>label = ''c'', bounding_box = [2 / 5, 3 / 10, 1 / 5, 2 / 5], confidence = 9 / 10\<rparr>]]"
    using box_is_every_field_between_first_and_last
            [of "[''labels/a.txt'' \<mapsto> RegularFile [''2 0.5 0.5 0.2 0.4 0.9'' @ [CHR 0x0A]]]"
                "''labels/a.txt''" "[''2 0.5 0.5 0.2 0.4 0.9'' @ [CHR 0x0A]]" decimal_value
                "[[2, 1 / 2, 1 / 2, 1 / 5, 2 / 5, 9 / 10]]" 6 "[''a'', ''b'', ''c'']" exact,
             OF h0 rd h1 h2 h3 h4, THEN conjunct2, THEN conjunct2, THEN conjunct1]
    by (simp add: exact_def trunc_def)
  then show ?thesis using h0 rd h1 h2 h3 h4 by (simp add: list_all_iff)
qed

section \<open>Detection converter: missing and empty files\<close>

text \<open>
  C7: for every path that names no file, and for every path that names an empty file,
  reading gives the empty array and converting it gives the empty list of detections;
  no error is raised.
\<close>

theorem missing_or_empty_file_gives_no_detections:
  assumes "fs filepath = None \<or> fs filepath = Some (RegularFile [])"
  shows "read_yolo_detections_file fs float filepath = Inr [] \<and>
         convert_yolo_detections_to_fiftyone rnd [] class_list = Inr [] \<and>
         add_yolo_detections fs float rnd [filepath] class_list = Inr [[]]"
  using assms
  by (auto simp: read_yolo_detections_file_def np_array_def np_size_def
                 convert_yolo_detections_to_fiftyone_def add_yolo_detections_def)

theorem missing_or_empty_file_gives_no_detections_witness:
  "([''labels/a.txt'' \<mapsto> RegularFile []] ''labels/b.txt'' = None \<or>
    [''labels/a.txt'' \<mapsto> RegularFile []] ''labels/b.txt'' = Some (RegularFile [])) \<and>
   ([''labels/a.txt'' \<mapsto> RegularFile []] ''labels/a.txt'' = None \<or>
    [''labels/a.txt'' \<mapsto> RegularFile []] ''labels/a.txt'' = Some (RegularFile [])) \<and>
   add_yolo_detections [''labels/a.txt'' \<mapsto> RegularFile []] float_decimal binary64
     [''labels/b.txt''] [''stenosis''] = Inr [[]] \<and>
   add_yolo_detections [''labels/a.txt'' \<mapsto> RegularFile []] float_decimal binary64
     [''labels/a.txt''] [''stenosis''] = Inr [[]]"
proof -
  have b: "[''labels/a.txt'' \<mapsto> RegularFile []] ''labels/b.txt'' = None \<or>
           [''labels/a.txt'' \<mapsto> RegularFile []] ''labels/b.txt'' = Some (RegularFile [])"
    by simp
  have a: "[''labels/a.txt'' \<mapsto> RegularFile []] ''labels/a.txt'' = None \<or>
           [''labels/a.txt'' \<mapsto> RegularFile []] ''labels/a.txt'' = Some (RegularFile [])"
    by simp
  show ?thesis
    using missing_or_empty_file_gives_no_detections
            [of "[''labels/a.txt'' \<mapsto> RegularFile []]" "''labels/b.txt''"
                float_decimal binary64 "[''stenosis'']", OF b]
          missing_or_empty_file_gives_no_detections
            [of "[''labels/a.txt'' \<mapsto> RegularFile []]" "''labels/a.txt''"
                float_decimal binary64 "[''stenosis'']", OF a]
          a b
    by blast
qed

section \<open>Detection converter: class labels\<close>

text \<open>
  C8: when a detection record has a class index that is at least the length of the label
  list, the lookup of the labels raises \<^verbatim>\<open>IndexError\<close> and so does the conversion of the
  array: no label is substituted and no record is left out.
\<close>

theorem class_index_beyond_list_raises:
  assumes "row \<in> set yolo_detections" and "row \<noteq> []"
    and "int (length class_list) \<le> trunc (hd row)"
  shows "get_class_labels (map hd yolo_detections) class_list = Inl IndexError \<and>
         convert_yolo_detections_to_fiftyone rnd yolo_detections class_list = Inl IndexError"
proof -
  have labels: "get_class_labels (map hd yolo_detections) class_list = Inl IndexError"
    using assms(1,3) by (auto simp: get_class_labels_Inl_iff)
  have size: "np_size yolo_detections \<noteq> 0"
    using assms(1,2) by (rule np_size_pos)
  show ?thesis
  proof (cases "uncenter_boxes rnd (map (\<lambda>r. butlast (tl r)) yolo_detections)")
    case (Inl e)
    then have "e = IndexError" by (rule uncenter_boxes_error)
    then show ?thesis
      using Inl size labels by (simp add: convert_yolo_detections_to_fiftyone_def)
  next
    case (Inr boxes)
    then have "length boxes = length yolo_detections"
      using uncenter_boxes_length by fastforce
    then have "map hd (map2 (\<lambda>r b. hd r # b @ [last r]) yolo_detections boxes) = map hd yolo_detections"
      by (rule map_hd_map2)
    then show ?thesis
      using Inr size labels by (simp add: convert_yolo_detections_to_fiftyone_def Let_def)
  qed
qed

theorem class_index_beyond_list_raises_witness:
  "[5, 1 / 2, 1 / 2, 1 / 5, 2 / 5, 9 / 10] \<in> set [[5, 1 / 2, 1 / 2, 1 / 5, 2 / 5, 9 / 10 :: rat]] \<and>
   [5, 1 / 2, 1 / 2, 1 / 5, 2 / 5, 9 / 10 :: rat] \<noteq> [] \<and>
   int (length [''a'', ''b'', ''c'']) \<le> trunc (hd [5, 1 / 2, 1 / 2, 1 / 5, 2 / 5, 9 / 10]) \<and>
   get_class_labels (map hd [[5, 1 / 2, 1 / 2, 1 / 5, 2 / 5, 9 / 10]]) [''a'', ''b'', ''c'']
     = Inl IndexError \<and>
   convert_yolo_detections_to_fiftyone binary64 [[5, 1 / 2, 1 / 2, 1 / 5, 2 / 5, 9 / 10]]
     [''a'', ''b'', ''c''] = Inl IndexError"
proof -
  have m: "[5, 1 / 2, 1 / 2, 1 / 5, 2 / 5, 9 / 10] \<in> set [[5, 1 / 2, 1 / 2, 1 / 5, 2 / 5, 9 / 10 :: rat]]"
    by simp
  have n: "[5, 1 / 2, 1 / 2, 1 / 5, 2 / 5, 9 / 10 :: rat] \<noteq> []"
    by simp
  have c: "int (length [''a'', ''b'', ''c'']) \<le> trunc (hd [5, 1 / 2, 1 / 2, 1 / 5, 2 / 5, 9 / 10])"
    by (simp add: trunc_def)
  show ?thesis
    using class_index_beyond_list_raises [OF m n c, of binary64] m n c by blast
qed

text \<open>
  C9: a class index \<open>n\<close> with \<open>-len(class_list) \<le> n \<le> -1\<close> does not raise: the label is
  \<open>class_list[len(class_list) + n]\<close>. The lookup raises exactly when some index is at
  least \<open>len(class_list)\<close> or below \<open>-len(class_list)\<close>.
\<close>

theorem negative_class_index_counts_from_end:
  "(- int (length class_list) \<le> n \<and> n \<le> - 1 \<longrightarrow>
      get_class_labels [of_int n] class_list = Inr [class_list ! nat (int (length class_list) + n)]) \<and>
   ((\<forall>c \<in> set predicted_classes.
       - int (length class_list) \<le> trunc c \<and> trunc c < int (length class_list)) \<longrightarrow>
      get_class_labels predicted_classes class_list =
        Inr (map (\<lambda>c. class_list ! nat (if trunc c < 0 then int (length class_list) + trunc c
                                         else trunc c)) predicted_classes)) \<and>
   ((\<exists>e. get_class_labels predicted_classes class_list = Inl e) \<longleftrightarrow>
      (\<exists>c \<in> set predicted_classes.
         int (length class_list) \<le> trunc c \<or> trunc c < - int (length class_list)))"
proof -
  have one: "get_class_labels [of_int n] class_list = Inr [class_list ! nat (int (length class_list) + n)]"
    if "- int (length class_list) \<le> n \<and> n \<le> - 1"
    using that get_class_labels_in_range[of "[of_int n]" class_list]
    by (simp add: trunc_of_int)
  have all: "get_class_labels predicted_classes class_list =
        Inr (map (\<lambda>c. class_list ! nat (if trunc c < 0 then int (length class_list) + trunc c
                                         else trunc c)) predicted_classes)"
    if "\<forall>c \<in> set predicted_classes.
       - int (length class_list) \<le> trunc c \<and> trunc c < int (length class_list)"
    using that by (rule get_class_labels_in_range)
  have err: "(\<exists>e. get_class_labels predicted_classes class_list = Inl e) \<longleftrightarrow>
      (\<exists>c \<in> set predicted_classes.
         int (length class_list) \<le> trunc c \<or> trunc c < - int (length class_list))"
    using get_class_labels_Inl_iff[of predicted_classes class_list] get_class_labels_error by blast
  show ?thesis using one all err by blast
qed

theorem negative_class_index_counts_from_end_witness:
  "- int (length [''a'', ''b'', ''c'']) \<le> - 1 \<and> (- 1 :: int) \<le> - 1 \<and>
   get_class_labels [- 1] [''a'', ''b'', ''c''] = Inr [''c''] \<and>
   list_all (\<lambda>c. - int (length [''a'', ''b'', ''c'']) \<le> trunc c \<and>
                 trunc c < int (length [''a'', ''b'', ''c''])) [- 1, 0, - 3] \<and>
   get_class_labels [- 1, 0, - 3] [''a'', ''b'', ''c''] = Inr [''c'', ''a'', ''a''] \<and>
   (\<exists>c \<in> set [- 4, 0 :: rat].
         int (length [''a'', ''b'', ''c'']) \<le> trunc c \<or> trunc c < - int (length [''a'', ''b'', ''c''])) \<and>
   (\<exists>e. get_class_labels [- 4, 0] [''a'', ''b'', ''c''] = Inl e)"
proof -
  have h1: "- int (length [''a'', ''b'', ''c'']) \<le> - 1 \<and> (- 1 :: int) \<le> - 1"
    by simp
  have h2: "\<forall>c \<in> set [- 1, 0, - 3 :: rat].
       - int (length [''a'', ''b'', ''c'']) \<le> trunc c \<and> trunc c < int (length [''a'', ''b'', ''c''])"
    by (simp add: trunc_def ceiling_def)
  have h3: "\<exists>c \<in> set [- 4, 0 :: rat].
         int (length [''a'', ''b'', ''c'']) \<le> trunc c \<or> trunc c < - int (length [''a'', ''b'', ''c''])"
    by (simp add: trunc_def ceiling_def)
  note t1 = negative_class_index_counts_from_end [of "[''a'', ''b'', ''c'']" "- 1" "[- 1, 0, - 3]"]
  note t2 = negative_class_index_counts_from_end [of "[''a'', ''b'', ''c'']" "- 1" "[- 4, 0]"]
  have a: "get_class_labels [- 1] [''a'', ''b'', ''c''] = Inr [''c'']"
    using t1[THEN conjunct1] h1 by simp
  have b: "get_class_labels [- 1, 0, - 3] [''a'', ''b'', ''c''] = Inr [''c'', ''a'', ''a'']"
    using t1[THEN conjunct2, THEN conjunct1] h2 by (simp add: trunc_def ceiling_def)
  have c: "\<exists>e. get_class_labels [- 4, 0] [''a'', ''b'', ''c''] = Inl e"
    using t2[THEN conjunct2, THEN conjunct2] h3 by blast
  show ?thesis using h1 h2 h3 a b c by (simp add: list_all_iff)
qed

end
